theory Spec2Isabelle
  imports Main "HOL-Library.Word"
begin

unbundle bit_operations_syntax

section \<open>Data\<close>

text \<open>
  \<^verbatim>\<open>struct compact_puzzle\<close> is declared in \<^verbatim>\<open>compact.h\<close>; \<^verbatim>\<open>puzzledistext.c\<close> reads and
  writes its two members \<^verbatim>\<open>lo\<close> and \<^verbatim>\<open>hi\<close>. Their integer type is a parameter: the
  functions below take it to be a machine word of any width.
\<close>

record 'a compact_puzzle =
  lo :: "'a"
  hi :: "'a"

text \<open>
  \<^verbatim>\<open>struct puzzle\<close> (from \<^verbatim>\<open>puzzle.h\<close>): the source reads \<^verbatim>\<open>p.tiles[t]\<close>, the grid
  location of tile \<open>t\<close>.
\<close>

record puzzle =
  tiles :: "nat list"

text \<open>Modelled from the spec: \<^verbatim>\<open>TILE_COUNT\<close> of \<^verbatim>\<open>puzzle.h\<close>, which the spec gives as 25.\<close>

definition TILE_COUNT :: nat where
  "TILE_COUNT = 25"

text \<open>
  What \<^verbatim>\<open>puzzledistext.c\<close> uses of \<^verbatim>\<open>compact.h\<close> and \<^verbatim>\<open>puzzle.h\<close>, neither of which is
  part of the sources at hand: the constant \<^verbatim>\<open>MOVE_MASK\<close> and the helper functions.
  They are parameters of the model. \<open>get_moves H z i\<close> stands for \<^verbatim>\<open>get_moves(z)[i]\<close>.
\<close>

record 'a helpers =
  MOVE_MASK :: "'a"
  unpack_puzzle :: "'a compact_puzzle \<Rightarrow> puzzle"
  pack_puzzle_masked :: "puzzle \<Rightarrow> nat \<Rightarrow> 'a compact_puzzle"
  move_mask :: "'a compact_puzzle \<Rightarrow> int"
  zero_location :: "puzzle \<Rightarrow> nat"
  move_count :: "nat \<Rightarrow> nat"
  get_moves :: "nat \<Rightarrow> nat \<Rightarrow> nat"
  move :: "puzzle \<Rightarrow> nat \<Rightarrow> puzzle"

section \<open>Files and failures\<close>

text \<open>
  A stream of records is a list of records. Of a stream that is read, it holds the records
  that reads will deliver, in order: \<^verbatim>\<open>getpuzzle\<close> takes the first one. Of a stream that
  is written, it holds the file as the writes have made it: \<^verbatim>\<open>putpuzzle\<close> appends one
  record, and the position of the stream is then the end of the file.

  The program ends by \<^verbatim>\<open>exit(status)\<close> after \<^verbatim>\<open>perror(s)\<close>: \<open>Exit status s\<close>.
  \<open>Undefined\<close> is a step whose behaviour C leaves undefined.

  Whether a call of the C library fails is decided by the environment. It is given as a
  schedule: the outcomes of the library calls still to come, \<open>True\<close> for a call that
  fails; once the schedule is used up no call fails.
\<close>

type_synonym 'a FILE = "'a compact_puzzle list"

datatype failure = Exit int string | Undefined

type_synonym world = "bool list"

definition EXIT_FAILURE :: int where
  "EXIT_FAILURE = 1"

definition library_call :: "world \<Rightarrow> bool \<times> world" where
  "library_call w = (case w of [] \<Rightarrow> (False, []) | failed # w' \<Rightarrow> (failed, w'))"

subsection \<open>\<^verbatim>\<open>getpuzzle\<close> and \<^verbatim>\<open>putpuzzle\<close>\<close>

text \<open>
  \<^verbatim>\<open>getpuzzle\<close> returns \<^verbatim>\<open>EOF\<close> (\<open>None\<close>) at the end of the stream, the record read
  otherwise, and ends the program when \<^verbatim>\<open>fread\<close> reports an error.
\<close>

definition getpuzzle ::
  "'a FILE \<Rightarrow> world \<Rightarrow> failure + ('a compact_puzzle option \<times> 'a FILE \<times> world)" where
  "getpuzzle cpfile w =
     (case library_call w of
        (True, w') \<Rightarrow> Inl (Exit EXIT_FAILURE ''getpuzzle'')
      | (False, w') \<Rightarrow>
          (case cpfile of
             [] \<Rightarrow> Inr (None, [], w')
           | cp # rest \<Rightarrow> Inr (Some cp, rest, w')))"

definition putpuzzle ::
  "'a FILE \<Rightarrow> 'a compact_puzzle \<Rightarrow> world \<Rightarrow> failure + ('a FILE \<times> world)" where
  "putpuzzle cpfile cp w =
     (case library_call w of
        (True, w') \<Rightarrow> Inl (Exit EXIT_FAILURE ''putpuzzle'')
      | (False, w') \<Rightarrow> Inr (cpfile @ [cp], w'))"

lemma getpuzzle_shorter:
  "getpuzzle cpfile w = Inr (Some cp, rest, w') \<Longrightarrow> length rest < length cpfile"
  by (auto simp: getpuzzle_def split: prod.splits bool.splits list.splits)

section \<open>\<^verbatim>\<open>expandpuzzle\<close>\<close>

text \<open>
  \<^verbatim>\<open>expandpuzzle\<close> and \<^verbatim>\<open>distribute\<close> call \<^verbatim>\<open>putpuzzle(outfiles + loc, &cp)\<close>, where
  \<^verbatim>\<open>outfiles\<close> is the array of \<^verbatim>\<open>TILE_COUNT\<close> streams. \<^verbatim>\<open>outfiles + loc\<close> is the address of
  slot \<open>loc\<close> of the array, a \<^verbatim>\<open>FILE **\<close>; \<^verbatim>\<open>putpuzzle\<close> takes the stream, a \<^verbatim>\<open>FILE *\<close>,
  which would be \<^verbatim>\<open>outfiles[loc]\<close>. So \<^verbatim>\<open>fwrite\<close> is handed a pointer that is no stream: the
  behaviour is undefined, and the call is no write to the bucket file in the slot.
\<close>

definition putpuzzle_at ::
  "(nat \<Rightarrow> 'a FILE) \<Rightarrow> nat \<Rightarrow> 'a compact_puzzle \<Rightarrow> world
     \<Rightarrow> failure + ((nat \<Rightarrow> 'a FILE) \<times> world)" where
  "putpuzzle_at outfiles loc cp w = Inl Undefined"

text \<open>
  The \<^verbatim>\<open>for\<close> loop of \<^verbatim>\<open>expandpuzzle\<close> over the move indices \<open>i = 0, ..., n_move - 1\<close>,
  with the local puzzle \<^verbatim>\<open>p\<close>, which an iteration changes twice: the move, and the move
  back after the write. The test \<^verbatim>\<open>movemask & 1 << i\<close> is on C \<^verbatim>\<open>int\<close>s; the mask field
  has at most 8 bits, so the shift stays in range. (The statements of lines 119 to 123
  of the source name \<^verbatim>\<open>j\<close> and \<^verbatim>\<open>cpfile\<close>, which are declared nowhere; they have no
  counterpart here.)
\<close>

fun expand_moves ::
  "'a helpers \<Rightarrow> int \<Rightarrow> nat \<Rightarrow> nat list \<Rightarrow> (nat \<Rightarrow> 'a FILE) \<Rightarrow> puzzle \<Rightarrow> world
     \<Rightarrow> failure + ((nat \<Rightarrow> 'a FILE) \<times> puzzle \<times> world)" where
  "expand_moves H movemask zloc [] outfiles p w = Inr (outfiles, p, w)"
| "expand_moves H movemask zloc (i # rest) outfiles p w =
     (if movemask AND push_bit i 1 \<noteq> 0 then expand_moves H movemask zloc rest outfiles p w
      else
        let p1 = move H p (get_moves H zloc i);
            ncp = pack_puzzle_masked H p1 zloc
        in (case putpuzzle_at outfiles (tiles p1 ! (TILE_COUNT - 1)) ncp w of
              Inl e \<Rightarrow> Inl e
            | Inr (outfiles', w') \<Rightarrow>
                expand_moves H movemask zloc rest outfiles' (move H p1 zloc) w'))"

definition expandpuzzle ::
  "'a helpers \<Rightarrow> (nat \<Rightarrow> 'a FILE) \<Rightarrow> 'a compact_puzzle \<Rightarrow> world
     \<Rightarrow> failure + ((nat \<Rightarrow> 'a FILE) \<times> world)" where
  "expandpuzzle H outfiles cp w =
     (let movemask = move_mask H cp;
          p = unpack_puzzle H cp;
          zloc = zero_location H p;
          n_move = move_count H zloc
      in case expand_moves H movemask zloc [0..<n_move] outfiles p w of
           Inl e \<Rightarrow> Inl e
         | Inr (outfiles', p', w') \<Rightarrow> Inr (outfiles', w'))"

section \<open>\<^verbatim>\<open>coalesce\<close>\<close>

text \<open>
  The \<^verbatim>\<open>while\<close> loop of \<^verbatim>\<open>coalesce\<close>, with the record \<^verbatim>\<open>a\<close> it holds; the loop ends
  at \<^verbatim>\<open>EOF\<close> and the final \<^verbatim>\<open>putpuzzle(outfile, &a)\<close> follows.
\<close>

function coalesce_loop ::
  "('w::len) word helpers \<Rightarrow> 'w word FILE \<Rightarrow> 'w word FILE \<Rightarrow> 'w word compact_puzzle \<Rightarrow> world
     \<Rightarrow> failure + ('w word FILE \<times> 'w word FILE \<times> world)" where
  "coalesce_loop H outfile infile a w =
     (case getpuzzle infile w of
        Inl e \<Rightarrow> Inl e
      | Inr (None, infile', w') \<Rightarrow>
          (case putpuzzle outfile a w' of
             Inl e \<Rightarrow> Inl e
           | Inr (outfile', w'') \<Rightarrow> Inr (outfile', infile', w''))
      | Inr (Some b, infile', w') \<Rightarrow>
          if hi a = hi b \<and> (lo a XOR lo b) AND NOT (MOVE_MASK H) = 0
          then coalesce_loop H outfile infile' (a\<lparr>lo := lo a OR lo b\<rparr>) w'
          else (case putpuzzle outfile a w' of
                  Inl e \<Rightarrow> Inl e
                | Inr (outfile', w'') \<Rightarrow> coalesce_loop H outfile' infile' b w''))"
  by pat_completeness auto
termination
  by (relation "measure (\<lambda>(H, outfile, infile, a, w). length infile)")
     (auto dest: getpuzzle_shorter)

declare coalesce_loop.simps [simp del]

definition coalesce ::
  "('w::len) word helpers \<Rightarrow> 'w word FILE \<Rightarrow> 'w word FILE \<Rightarrow> world
     \<Rightarrow> failure + ('w word FILE \<times> 'w word FILE \<times> world)" where
  "coalesce H outfile infile w =
     (case getpuzzle infile w of
        Inl e \<Rightarrow> Inl e
      | Inr (None, infile', w') \<Rightarrow> Inr (outfile, infile', w')
      | Inr (Some a, infile', w') \<Rightarrow> coalesce_loop H outfile infile' a w')"

section \<open>\<^verbatim>\<open>distribute\<close>\<close>

text \<open>
  The \<^verbatim>\<open>while\<close> loop of \<^verbatim>\<open>distribute\<close>; its write is
  \<^verbatim>\<open>putpuzzle(outfiles + p.tiles[t], &cp)\<close>, through the address of the slot.
\<close>

function distribute ::
  "'a helpers \<Rightarrow> (nat \<Rightarrow> 'a FILE) \<Rightarrow> 'a FILE \<Rightarrow> nat \<Rightarrow> world
     \<Rightarrow> failure + ((nat \<Rightarrow> 'a FILE) \<times> 'a FILE \<times> world)" where
  "distribute H outfiles infile t w =
     (case getpuzzle infile w of
        Inl e \<Rightarrow> Inl e
      | Inr (None, infile', w') \<Rightarrow> Inr (outfiles, infile', w')
      | Inr (Some cp, infile', w') \<Rightarrow>
          let p = unpack_puzzle H cp
          in (case putpuzzle_at outfiles (tiles p ! t) cp w' of
                Inl e \<Rightarrow> Inl e
              | Inr (outfiles', w'') \<Rightarrow> distribute H outfiles' infile' t w''))"
  by pat_completeness auto
termination
  by (relation "measure (\<lambda>(H, outfiles, infile, t, w). length infile)")
     (auto dest: getpuzzle_shorter)

declare distribute.simps [simp del]

section \<open>\<^verbatim>\<open>makerdxfiles\<close> and \<^verbatim>\<open>removerdxfile\<close>\<close>

text \<open>
  The path \<^verbatim>\<open>"%s-%02d-%02zu.rdx"\<close> of a bucket file: the prefix, the round and the grid
  location, the two numbers in decimal with at least two digits. (\<^verbatim>\<open>snprintf\<close> cuts the
  path at \<^verbatim>\<open>PATH_MAX\<close>; the model takes the prefix to be short enough.)
\<close>

definition digit_char :: "nat \<Rightarrow> char" where
  "digit_char n = char_of (48 + n)"

fun decimal :: "nat \<Rightarrow> string" where
  "decimal n = (if n < 10 then [digit_char n] else decimal (n div 10) @ [digit_char (n mod 10)])"

declare decimal.simps [simp del]

definition two_digits :: "nat \<Rightarrow> string" where
  "two_digits n = (if n < 10 then CHR ''0'' # decimal n else decimal n)"

definition rdxpath :: "string \<Rightarrow> nat \<Rightarrow> nat \<Rightarrow> string" where
  "rdxpath dir round loc = dir @ ''-'' @ two_digits round @ ''-'' @ two_digits loc @ ''.rdx''"

text \<open>
  \<^verbatim>\<open>makerdxfiles\<close>: one \<^verbatim>\<open>fopen(pathbuf, "w+b")\<close> for each \<open>i = 0, ..., TILE_COUNT - 1\<close>;
  a file just opened is empty.
\<close>

fun makerdxfiles_loop ::
  "string \<Rightarrow> nat \<Rightarrow> nat list \<Rightarrow> (nat \<Rightarrow> 'a FILE) \<Rightarrow> world \<Rightarrow> failure + ((nat \<Rightarrow> 'a FILE) \<times> world)" where
  "makerdxfiles_loop dir round [] files w = Inr (files, w)"
| "makerdxfiles_loop dir round (i # rest) files w =
     (let pathbuf = rdxpath dir round i
      in case library_call w of
           (True, w') \<Rightarrow> Inl (Exit EXIT_FAILURE pathbuf)
         | (False, w') \<Rightarrow> makerdxfiles_loop dir round rest (files(i := [])) w')"

definition makerdxfiles ::
  "(nat \<Rightarrow> 'a FILE) \<Rightarrow> string \<Rightarrow> nat \<Rightarrow> world \<Rightarrow> failure + ((nat \<Rightarrow> 'a FILE) \<times> world)" where
  "makerdxfiles files dir round w = makerdxfiles_loop dir round [0..<TILE_COUNT] files w"

text \<open>
  \<^verbatim>\<open>removerdxfile\<close> calls \<^verbatim>\<open>remove(pathbuf)\<close> and returns; whether the call failed is
  not looked at.
\<close>

definition removerdxfile :: "string \<Rightarrow> nat \<Rightarrow> nat \<Rightarrow> world \<Rightarrow> world" where
  "removerdxfile dir round loc w =
     (let pathbuf = rdxpath dir round loc
      in case library_call w of (failed, w') \<Rightarrow> w')"

section \<open>\<^verbatim>\<open>expround\<close>\<close>

text \<open>The loop \<^verbatim>\<open>while (getpuzzle(&cp, infile) != EOF) expandpuzzle(rdxfiles, &cp);\<close>\<close>

function expand_stream ::
  "'a helpers \<Rightarrow> (nat \<Rightarrow> 'a FILE) \<Rightarrow> 'a FILE \<Rightarrow> world
     \<Rightarrow> failure + ((nat \<Rightarrow> 'a FILE) \<times> 'a FILE \<times> world)" where
  "expand_stream H rdxfiles infile w =
     (case getpuzzle infile w of
        Inl e \<Rightarrow> Inl e
      | Inr (None, infile', w') \<Rightarrow> Inr (rdxfiles, infile', w')
      | Inr (Some cp, infile', w') \<Rightarrow>
          (case expandpuzzle H rdxfiles cp w' of
             Inl e \<Rightarrow> Inl e
           | Inr (rdxfiles', w'') \<Rightarrow> expand_stream H rdxfiles' infile' w''))"
  by pat_completeness auto
termination
  by (relation "measure (\<lambda>(H, rdxfiles, infile, w). length infile)")
     (auto dest: getpuzzle_shorter)

declare expand_stream.simps [simp del]

text \<open>
  A bucket file is opened \<^verbatim>\<open>"w+b"\<close> and used through one stream: the writes of one pass,
  then the reads of the next. A stream has one position. Every write leaves it behind
  the record written, so that after the writes of a pass it is the end of the file, and
  \<^verbatim>\<open>expround\<close> has no call that moves it before the reads (no \<^verbatim>\<open>rewind\<close>, no \<^verbatim>\<open>fseek\<close>; its
  only calls on a bucket are the writes, the reads, \<^verbatim>\<open>fclose\<close> and \<^verbatim>\<open>remove\<close>). \<open>unread\<close>
  is what the reads deliver from a stream that has been written and not moved: the
  records from its position on, and there are none. (C11 7.21.5.3 leaves a read that
  follows a write with no positioning call between them undefined; the model has the
  read at the position of the stream, which is what the C libraries in use do.)
\<close>

definition unread :: "'a FILE \<Rightarrow> 'a FILE" where
  "unread cpfile = drop (length cpfile) cpfile"

text \<open>
  The inner loop of a round, over \<open>loc = 0, ..., TILE_COUNT - 1\<close>: distribute the old
  bucket on tile \<open>round - 1\<close>, \<^verbatim>\<open>fclose\<close> it and remove its file. The value of \<^verbatim>\<open>fclose\<close>
  is not looked at.
\<close>

fun distribute_files ::
  "'a helpers \<Rightarrow> string \<Rightarrow> nat \<Rightarrow> nat list \<Rightarrow> (nat \<Rightarrow> 'a FILE) \<Rightarrow> (nat \<Rightarrow> 'a FILE) \<Rightarrow> world
     \<Rightarrow> failure + ((nat \<Rightarrow> 'a FILE) \<times> world)" where
  "distribute_files H dir round [] rdxfiles oldrdxfiles w = Inr (rdxfiles, w)"
| "distribute_files H dir round (loc # rest) rdxfiles oldrdxfiles w =
     (case distribute H rdxfiles (unread (oldrdxfiles loc)) (round - 1) w of
        Inl e \<Rightarrow> Inl e
      | Inr (rdxfiles', drained, w1) \<Rightarrow>
          (case library_call w1 of
             (failed, w2) \<Rightarrow>
               distribute_files H dir round rest rdxfiles' oldrdxfiles
                 (removerdxfile dir round loc w2)))"

text \<open>
  The loop \<^verbatim>\<open>for (; round >= 1; round--)\<close>: the buckets of the round become the old
  buckets, and the files of round \<open>round - 1\<close> are opened in their place. (The source
  writes \<^verbatim>\<open>oldrdxfiles = rdxfiles\<close> on arrays; it is read as the copy of the
  \<^verbatim>\<open>TILE_COUNT\<close> file pointers.)
\<close>

fun radix_rounds ::
  "'a helpers \<Rightarrow> string \<Rightarrow> nat \<Rightarrow> (nat \<Rightarrow> 'a FILE) \<Rightarrow> world
     \<Rightarrow> failure + ((nat \<Rightarrow> 'a FILE) \<times> world)" where
  "radix_rounds H dir 0 rdxfiles w = Inr (rdxfiles, w)"
| "radix_rounds H dir (Suc r) rdxfiles w =
     (let oldrdxfiles = rdxfiles
      in case makerdxfiles rdxfiles dir r w of
           Inl e \<Rightarrow> Inl e
         | Inr (rdxfiles1, w1) \<Rightarrow>
             (case distribute_files H dir (Suc r) [0..<TILE_COUNT] rdxfiles1 oldrdxfiles w1 of
                Inl e \<Rightarrow> Inl e
              | Inr (rdxfiles2, w2) \<Rightarrow> radix_rounds H dir r rdxfiles2 w2))"

text \<open>
  The last loop of \<^verbatim>\<open>expround\<close>: coalesce each bucket into \<^verbatim>\<open>outfile\<close>, in the order
  \<open>loc = 0, ..., TILE_COUNT - 1\<close>. The buckets are those the last round has written, read
  where their streams stand.
\<close>

fun coalesce_files ::
  "('w::len) word helpers \<Rightarrow> string \<Rightarrow> nat \<Rightarrow> nat list \<Rightarrow> 'w word FILE \<Rightarrow> (nat \<Rightarrow> 'w word FILE)
     \<Rightarrow> world \<Rightarrow> failure + ('w word FILE \<times> world)" where
  "coalesce_files H dir round [] outfile rdxfiles w = Inr (outfile, w)"
| "coalesce_files H dir round (loc # rest) outfile rdxfiles w =
     (case coalesce H outfile (unread (rdxfiles loc)) w of
        Inl e \<Rightarrow> Inl e
      | Inr (outfile', drained, w1) \<Rightarrow>
          (case library_call w1 of
             (failed, w2) \<Rightarrow>
               coalesce_files H dir round rest outfile' rdxfiles
                 (removerdxfile dir round loc w2)))"

text \<open>
  \<^verbatim>\<open>expround\<close> up to the end of the rounds: what it returns are the bucket files as
  the last round leaves them, which the last loop of \<^verbatim>\<open>expround\<close> then reads. The
  array \<^verbatim>\<open>rdxfiles\<close> holds nothing before \<^verbatim>\<open>makerdxfiles\<close> fills it.
\<close>

definition expround_sort ::
  "'a helpers \<Rightarrow> 'a FILE \<Rightarrow> string \<Rightarrow> world
     \<Rightarrow> failure + ((nat \<Rightarrow> 'a FILE) \<times> 'a FILE \<times> world)" where
  "expround_sort H infile dir w =
     (let round = TILE_COUNT - 2
      in case makerdxfiles (\<lambda>loc. []) dir round w of
           Inl e \<Rightarrow> Inl e
         | Inr (rdxfiles, w1) \<Rightarrow>
             (case expand_stream H rdxfiles infile w1 of
                Inl e \<Rightarrow> Inl e
              | Inr (rdxfiles1, infile', w2) \<Rightarrow>
                  (case radix_rounds H dir round rdxfiles1 w2 of
                     Inl e \<Rightarrow> Inl e
                   | Inr (rdxfiles2, w3) \<Rightarrow> Inr (rdxfiles2, infile', w3))))"

definition expround ::
  "('w::len) word helpers \<Rightarrow> 'w word FILE \<Rightarrow> 'w word FILE \<Rightarrow> string \<Rightarrow> world
     \<Rightarrow> failure + ('w word FILE \<times> 'w word FILE \<times> world)" where
  "expround H outfile infile dir w =
     (case expround_sort H infile dir w of
        Inl e \<Rightarrow> Inl e
      | Inr (rdxfiles, infile', w1) \<Rightarrow>
          (case coalesce_files H dir 0 [0..<TILE_COUNT] outfile rdxfiles w1 of
             Inl e \<Rightarrow> Inl e
           | Inr (outfile', w2) \<Rightarrow> Inr (outfile', infile', w2)))"

text \<open>
  The bucket files of an array, one after another in the order \<open>loc = 0, ..., 24\<close>: all
  the records the files hold.
\<close>

definition read_buckets :: "(nat \<Rightarrow> 'a FILE) \<Rightarrow> 'a compact_puzzle list" where
  "read_buckets rdxfiles = concat (map rdxfiles [0..<TILE_COUNT])"

section \<open>\<^verbatim>\<open>main\<close>\<close>

text \<open>
  What \<^verbatim>\<open>main\<close> calls and the sources at hand do not hold: \<^verbatim>\<open>atoi\<close> and \<^verbatim>\<open>strtoull\<close> of
  the C library, the record \<^verbatim>\<open>pack_puzzle\<close> makes of \<^verbatim>\<open>solved_puzzle\<close>, \<^verbatim>\<open>cps_round\<close>
  (the slice it fills from the old slice) and \<^verbatim>\<open>do_sampling\<close> (the slice as it leaves
  it). They are parameters. \<^verbatim>\<open>cps_round\<close> and \<^verbatim>\<open>do_sampling\<close> may end the program
  themselves, as on an error with the sample file: then their value is the failure. A
  \<^verbatim>\<open>struct cp_slice\<close> is the list of its records, \<^verbatim>\<open>len\<close> its length.

  \<^verbatim>\<open>getopt\<close> is given by what it returns: the option characters with their arguments, in
  order, ending with \<open>-1\<close>, and the arguments from \<^verbatim>\<open>argv[optind]\<close> on. \<^verbatim>\<open>usage\<close> writes
  its line to \<^verbatim>\<open>stderr\<close> and ends the program.

  \<^verbatim>\<open>printf\<close> and \<^verbatim>\<open>fflush\<close> are calls of the C library that may fail: the heading line,
  the line of layer 0, and in every turn of the loop \<^verbatim>\<open>fflush(stdout)\<close> and the line of
  the layer. \<^verbatim>\<open>main\<close> does not look at their values. What is kept of the output is
  what \<^verbatim>\<open>main\<close> hands to \<^verbatim>\<open>printf\<close> for the layers: the pairs of a layer's number and
  size. The counter \<^verbatim>\<open>i\<close> is a C \<^verbatim>\<open>int\<close>: \<^verbatim>\<open>i++\<close> at \<^verbatim>\<open>INT_MAX\<close> is undefined.
  \<^verbatim>\<open>main\<close> returns by reaching its end, which is exit status 0.
\<close>

definition INT_MAX :: int where
  "INT_MAX = 2147483647"

record 'a collaborators =
  atoi :: "string \<Rightarrow> int"
  strtoull :: "string \<Rightarrow> nat"
  solved_record :: "'a compact_puzzle"
  cps_round :: "'a compact_puzzle list \<Rightarrow> failure + 'a compact_puzzle list"
  do_sampling :: "string \<Rightarrow> 'a compact_puzzle list \<Rightarrow> int \<Rightarrow> nat \<Rightarrow> failure + 'a compact_puzzle list"

record settings =
  samplefile :: "string option"
  limit :: int
  n_samples :: nat
  random_seed :: "nat option"

definition usage :: "string \<Rightarrow> failure" where
  "usage argv0 =
     Exit EXIT_FAILURE
       (''Usage: '' @ argv0 @ '' [-l limit] [-f filename] [-n n_samples] [-s seed] shuffledir'')"

fun getopt_loop ::
  "'a collaborators \<Rightarrow> string \<Rightarrow> (char \<times> string) list \<Rightarrow> settings \<Rightarrow> failure + settings" where
  "getopt_loop D argv0 [] s = Inr s"
| "getopt_loop D argv0 ((optchar, optarg) # rest) s =
     (if optchar = CHR ''f'' then getopt_loop D argv0 rest (s\<lparr>samplefile := Some optarg\<rparr>)
      else if optchar = CHR ''l'' then getopt_loop D argv0 rest (s\<lparr>limit := atoi D optarg\<rparr>)
      else if optchar = CHR ''n'' then getopt_loop D argv0 rest (s\<lparr>n_samples := strtoull D optarg\<rparr>)
      else if optchar = CHR ''s''
        then getopt_loop D argv0 rest (s\<lparr>random_seed := Some (strtoull D optarg)\<rparr>)
      else Inl (usage argv0))"

function layer_loop ::
  "'a collaborators \<Rightarrow> settings \<Rightarrow> int \<Rightarrow> 'a compact_puzzle list \<Rightarrow> (int \<times> nat) list \<Rightarrow> world
     \<Rightarrow> failure + (int \<times> nat) list" where
  "layer_loop D s i new_cps out w =
     (if i \<le> limit s then
        (case library_call w of
           (flush_failed, w1) \<Rightarrow>
             (case cps_round D new_cps of
                Inl e \<Rightarrow> Inl e
              | Inr cps1 \<Rightarrow>
                  (case (case samplefile s of
                           None \<Rightarrow> Inr cps1
                         | Some f \<Rightarrow> do_sampling D f cps1 i (n_samples s)) of
                     Inl e \<Rightarrow> Inl e
                   | Inr cps2 \<Rightarrow>
                       (case library_call w1 of
                          (printf_failed, w2) \<Rightarrow>
                            if i = INT_MAX then Inl Undefined
                            else layer_loop D s (i + 1) cps2 (out @ [(i, length cps2)]) w2))))
      else Inr out)"
  by pat_completeness auto
termination
  by (relation "measure (\<lambda>(D, s, i, new_cps, out, w). nat (limit s + 1 - i))") auto

declare layer_loop.simps [simp del]

definition default_settings :: settings where
  "default_settings = \<lparr>samplefile = None, limit = INT_MAX, n_samples = 2 ^ 20, random_seed = None\<rparr>"

definition main ::
  "'a collaborators \<Rightarrow> string \<Rightarrow> (char \<times> string) list \<Rightarrow> string list \<Rightarrow> world
     \<Rightarrow> failure + (int \<times> (int \<times> nat) list)" where
  "main D argv0 opts args w =
     (case getopt_loop D argv0 opts default_settings of
        Inl e \<Rightarrow> Inl e
      | Inr s \<Rightarrow>
          if length args \<noteq> 1 then Inl (usage argv0)
          else
            (case (case samplefile s of
                     None \<Rightarrow> Inr ([] @ [solved_record D])
                   | Some f \<Rightarrow> do_sampling D f ([] @ [solved_record D]) 0 (n_samples s)) of
               Inl e \<Rightarrow> Inl e
             | Inr new_cps \<Rightarrow>
                 (case library_call w of
                    (heading_failed, w1) \<Rightarrow>
                      (case library_call w1 of
                         (printf_failed, w2) \<Rightarrow>
                           (case layer_loop D s 1 new_cps [(0, length new_cps)] w2 of
                              Inl e \<Rightarrow> Inl e
                            | Inr out \<Rightarrow> Inr (0, out))))))"

section \<open>\<^verbatim>\<open>pdb.h\<close>\<close>

text \<open>
  Of \<^verbatim>\<open>struct index\<close> (\<^verbatim>\<open>index.h\<close>) the three members \<^verbatim>\<open>pdb.h\<close> reads. Of
  \<^verbatim>\<open>struct patterndb\<close>: whether \<^verbatim>\<open>tileset_has(pdb->aux.ts, ZERO_TILE)\<close> holds,
  \<^verbatim>\<open>pdb->aux.idxt[maprank].n_eqclass\<close>, and the tables, each a function from an offset to
  a byte. A pointer into the tables is the pair of the table and the offset.
  \<^verbatim>\<open>UNREACHED\<close> is \<^verbatim>\<open>(unsigned char)-1\<close>. The arguments \<^verbatim>\<open>expected\<close> and \<^verbatim>\<open>desired\<close> are
  \<^verbatim>\<open>unsigned\<close>; \<^verbatim>\<open>unsigned char exp = expected\<close> and the exchange convert them to bytes.
  \<^verbatim>\<open>atomic_compare_exchange_strong\<close> is one indivisible step.
\<close>

record index =
  maprank :: nat
  pidx :: nat
  eqidx :: nat

record patterndb =
  has_zero_tile :: bool
  n_eqclass :: "nat \<Rightarrow> nat"
  tables :: "nat \<Rightarrow> nat \<Rightarrow> 8 word"

definition UNREACHED :: "8 word" where
  "UNREACHED = 255"

definition pdb_entry_pointer :: "patterndb \<Rightarrow> index \<Rightarrow> nat \<times> nat" where
  "pdb_entry_pointer pdb idx =
     (if has_zero_tile pdb
      then (maprank idx, pidx idx * n_eqclass pdb (maprank idx) + eqidx idx)
      else (maprank idx, pidx idx))"

definition load :: "patterndb \<Rightarrow> nat \<times> nat \<Rightarrow> 8 word" where
  "load pdb ptr = (case ptr of (m, off) \<Rightarrow> tables pdb m off)"

definition store :: "patterndb \<Rightarrow> nat \<times> nat \<Rightarrow> 8 word \<Rightarrow> patterndb" where
  "store pdb ptr v =
     (case ptr of (m, off) \<Rightarrow> pdb\<lparr>tables := (tables pdb)(m := (tables pdb m)(off := v))\<rparr>)"

definition pdb_lookup :: "patterndb \<Rightarrow> index \<Rightarrow> int" where
  "pdb_lookup pdb idx = uint (load pdb (pdb_entry_pointer pdb idx))"

definition pdb_update :: "patterndb \<Rightarrow> index \<Rightarrow> 32 word \<Rightarrow> patterndb" where
  "pdb_update pdb idx dist = store pdb (pdb_entry_pointer pdb idx) (ucast dist)"

definition pdb_conditional_update ::
  "patterndb \<Rightarrow> index \<Rightarrow> 32 word \<Rightarrow> 32 word \<Rightarrow> int \<times> patterndb" where
  "pdb_conditional_update pdb idx expected desired =
     (let exp = (ucast expected :: 8 word)
      in if load pdb (pdb_entry_pointer pdb idx) = exp
         then (1, store pdb (pdb_entry_pointer pdb idx) (ucast desired))
         else (0, pdb))"

section \<open>The helpers of the 5 by 5 grid\<close>

text \<open>
  Modelled from the spec: the move table of \<^verbatim>\<open>puzzle.h\<close> (\<^verbatim>\<open>get_moves\<close>, \<^verbatim>\<open>move_count\<close>),
  which is not among the sources. The grid indices the blank at grid index \<open>z\<close> can be
  swapped with are its neighbours on the 5 by 5 grid; the spec leaves their order open,
  here: above, left, right, below.
\<close>

definition grid_moves :: "nat \<Rightarrow> nat list" where
  "grid_moves z =
     (if 5 \<le> z then [z - 5] else []) @ (if z mod 5 \<noteq> 0 then [z - 1] else []) @
     (if z mod 5 \<noteq> 4 then [z + 1] else []) @ (if z < 20 then [z + 5] else [])"

text \<open>
  Modelled from the spec: \<^verbatim>\<open>move\<close> of \<^verbatim>\<open>puzzle.h\<close>, which swaps the blank (tile 0)
  with the tile at the grid index given.
\<close>

definition grid_move :: "puzzle \<Rightarrow> nat \<Rightarrow> puzzle" where
  "grid_move p dloc =
     (let zloc = tiles p ! 0
      in p\<lparr>tiles := map (\<lambda>l. if l = dloc then zloc else if l = zloc then dloc else l) (tiles p)\<rparr>)"

text \<open>
  Modelled from the spec: the codec of \<^verbatim>\<open>compact.h\<close>, which is not among the sources.
  Five bits for each tile position; the position of the last tile is left out, being
  what the others leave of \<open>0 + 1 + ... + 24 = 300\<close>; the mask field is the low bits of
  \<^verbatim>\<open>lo\<close>, one bit for each move index of a grid location (\<^verbatim>\<open>MOVE_MASK\<close> is 15). \<^verbatim>\<open>lo\<close>
  holds the positions of tiles 0 to 11 above the mask field, \<^verbatim>\<open>hi\<close> those of tiles 12
  to 23. \<^verbatim>\<open>pack_puzzle_masked\<close> sets the mask bit of the move that leads to the grid
  index given.
\<close>

definition tile_field :: "64 word \<Rightarrow> nat \<Rightarrow> nat" where
  "tile_field x k = unat (take_bit 5 (drop_bit k x))"

definition grid_unpack_puzzle :: "64 word compact_puzzle \<Rightarrow> puzzle" where
  "grid_unpack_puzzle cp =
     (let ts = map (\<lambda>i. tile_field (lo cp) (4 + 5 * i)) [0..<12] @
               map (\<lambda>i. tile_field (hi cp) (5 * i)) [0..<12]
      in \<lparr>tiles = ts @ [300 - sum_list ts]\<rparr>)"

definition pack_fields :: "nat \<Rightarrow> nat list \<Rightarrow> 64 word" where
  "pack_fields k ts =
     foldr (\<lambda>(i, t) x. push_bit (k + 5 * i) (of_nat t) OR x) (zip [0..<length ts] ts) 0"

definition grid_pack_puzzle_masked :: "puzzle \<Rightarrow> nat \<Rightarrow> 64 word compact_puzzle" where
  "grid_pack_puzzle_masked p dest =
     \<lparr>lo = pack_fields 4 (take 12 (tiles p)) OR
            foldr (\<lambda>(i, d) x. (if d = dest then push_bit i 1 else 0) OR x)
              (zip [0..<4] (grid_moves (tiles p ! 0))) 0,
      hi = pack_fields 0 (take 12 (drop 12 (tiles p)))\<rparr>"

definition grid_helpers :: "64 word helpers" where
  "grid_helpers =
     \<lparr>MOVE_MASK = 15,
      unpack_puzzle = grid_unpack_puzzle,
      pack_puzzle_masked = grid_pack_puzzle_masked,
      move_mask = (\<lambda>cp. uint (lo cp AND 15)),
      zero_location = (\<lambda>p. tiles p ! 0),
      move_count = (\<lambda>z. length (grid_moves z)),
      get_moves = (\<lambda>z i. grid_moves z ! i),
      move = grid_move\<rparr>"

subsection \<open>The coalescing pass as the specification words it\<close>

text \<open>
  Read the first record \<open>a\<close>; for each subsequent record \<open>b\<close>, if \<open>a.hi = b.hi\<close> and
  \<open>(a.lo XOR b.lo) AND NOT MOVE_MASK = 0\<close> then \<open>a.lo\<close> becomes \<open>a.lo OR b.lo\<close>, else
  emit \<open>a\<close> and continue with \<open>b\<close>; after the last record emit \<open>a\<close>.
\<close>

fun coalesce_pass ::
  "('w::len) word \<Rightarrow> 'w word compact_puzzle \<Rightarrow> 'w word compact_puzzle list
     \<Rightarrow> 'w word compact_puzzle list" where
  "coalesce_pass mm a [] = [a]"
| "coalesce_pass mm a (b # bs) =
     (if hi a = hi b \<and> (lo a XOR lo b) AND NOT mm = 0
      then coalesce_pass mm (a\<lparr>lo := lo a OR lo b\<rparr>) bs
      else a # coalesce_pass mm b bs)"

fun coalesce_spec ::
  "('w::len) word \<Rightarrow> 'w word compact_puzzle list \<Rightarrow> 'w word compact_puzzle list" where
  "coalesce_spec mm [] = []"
| "coalesce_spec mm (a # bs) = coalesce_pass mm a bs"

text \<open>
  The configuration a record represents: \<^verbatim>\<open>hi\<close>, and \<^verbatim>\<open>lo\<close> outside the mask bits.
\<close>

definition conf :: "('w::len) word \<Rightarrow> 'w word compact_puzzle \<Rightarrow> 'w word \<times> 'w word" where
  "conf mm r = (hi r, lo r AND NOT mm)"

text \<open>
  Records of the same configuration are adjacent in a stream when no other configuration
  stands between two of them; \<open>cs\<close> is the stream's list of configurations.
\<close>

definition adjacent_runs :: "'a list \<Rightarrow> bool" where
  "adjacent_runs cs =
     (\<forall>i j k. i < k \<and> k < j \<and> j < length cs \<and> cs ! i = cs ! j \<longrightarrow> cs ! k = cs ! i)"

text \<open>The bitwise OR of the mask bits of the records of a group.\<close>

definition mask_union :: "('w::len) word \<Rightarrow> 'w word compact_puzzle list \<Rightarrow> 'w word" where
  "mask_union mm g = foldr (\<lambda>r x. (lo r AND mm) OR x) g 0"

subsection \<open>The expansion of a record\<close>

text \<open>
  The blank of the parent, the puzzle after move \<open>i\<close> of the parent, the child record of
  move \<open>i\<close>, the move indices below \<open>n_move\<close> whose bit is not set in the parent's mask, and
  the children of a record: one for each of these move indices.
\<close>

definition parent_zloc :: "'a helpers \<Rightarrow> 'a compact_puzzle \<Rightarrow> nat" where
  "parent_zloc H cp = zero_location H (unpack_puzzle H cp)"

definition moved :: "'a helpers \<Rightarrow> 'a compact_puzzle \<Rightarrow> nat \<Rightarrow> puzzle" where
  "moved H cp i = move H (unpack_puzzle H cp) (get_moves H (parent_zloc H cp) i)"

definition child :: "'a helpers \<Rightarrow> 'a compact_puzzle \<Rightarrow> nat \<Rightarrow> 'a compact_puzzle" where
  "child H cp i = pack_puzzle_masked H (moved H cp i) (parent_zloc H cp)"

definition unmasked_moves :: "'a helpers \<Rightarrow> 'a compact_puzzle \<Rightarrow> nat list" where
  "unmasked_moves H cp =
     filter (\<lambda>i. \<not> bit (move_mask H cp) i) [0..<move_count H (parent_zloc H cp)]"

definition children :: "'a helpers \<Rightarrow> 'a compact_puzzle \<Rightarrow> 'a compact_puzzle list" where
  "children H cp = map (child H cp) (unmasked_moves H cp)"

text \<open>
  Layer 0 as the spec has it: the one record of the solved puzzle, with mask zero. On the
  5 by 5 grid its blank is at grid location 0 and has two moves, to the locations 1 and 5.
\<close>

definition layer0 :: "64 word compact_puzzle" where
  "layer0 = \<lparr>lo = 6526423501624607232, hi = 854193664183220652\<rparr>"

subsection \<open>The layers \<^verbatim>\<open>main\<close> reports\<close>

text \<open>
  Layer 0 is the packed solved puzzle; layer \<open>i + 1\<close> is what \<^verbatim>\<open>cps_round\<close> makes of layer
  \<open>i\<close>; each passes through \<^verbatim>\<open>do_sampling\<close> when a sample file is named. A layer is a
  failure when \<^verbatim>\<open>cps_round\<close> or \<^verbatim>\<open>do_sampling\<close> has ended the program on the way to it.
  The report of a layer is its number and its size.
\<close>

definition sampled ::
  "'a collaborators \<Rightarrow> settings \<Rightarrow> int \<Rightarrow> 'a compact_puzzle list \<Rightarrow> failure + 'a compact_puzzle list" where
  "sampled D s i cps =
     (case samplefile s of None \<Rightarrow> Inr cps | Some f \<Rightarrow> do_sampling D f cps i (n_samples s))"

fun layer :: "'a collaborators \<Rightarrow> settings \<Rightarrow> nat \<Rightarrow> failure + 'a compact_puzzle list" where
  "layer D s 0 = sampled D s 0 [solved_record D]"
| "layer D s (Suc i) =
     (case layer D s i of
        Inl e \<Rightarrow> Inl e
      | Inr cps \<Rightarrow>
          (case cps_round D cps of
             Inl e \<Rightarrow> Inl e
           | Inr cps' \<Rightarrow> sampled D s (int (Suc i)) cps'))"

definition report :: "'a collaborators \<Rightarrow> settings \<Rightarrow> nat \<Rightarrow> int \<times> nat" where
  "report D s i = (int i, case layer D s i of Inl e \<Rightarrow> 0 | Inr cps \<Rightarrow> length cps)"

text \<open>
  Instances for evaluation: numbers are read as digit strings; every round yields the
  empty slice, and in the second instance a round on the empty slice ends the program.
\<close>

definition decimal_value :: "string \<Rightarrow> nat" where
  "decimal_value digits = foldl (\<lambda>n c. 10 * n + (of_char c - 48)) 0 digits"

definition empty_rounds :: "64 word collaborators" where
  "empty_rounds =
     \<lparr>atoi = (\<lambda>s. int (decimal_value s)), strtoull = decimal_value,
      solved_record = \<lparr>lo = 6526423501624607232, hi = 854193664183220652\<rparr>,
      cps_round = (\<lambda>old_cps. Inr []), do_sampling = (\<lambda>f cps i n. Inr cps)\<rparr>"

definition failing_rounds :: "64 word collaborators" where
  "failing_rounds =
     empty_rounds\<lparr>cps_round :=
       (\<lambda>old_cps. if old_cps = [] then Inl (Exit EXIT_FAILURE ''cps_round'') else Inr [])\<rparr>"

subsection \<open>Calls of \<^verbatim>\<open>pdb_conditional_update\<close> one after another\<close>

text \<open>
  The calls \<^verbatim>\<open>pdb_conditional_update(pdb, idx, UNREACHED, d)\<close> for the values \<open>d\<close> of a
  list. The exchange being atomic, the calls of concurrent callers take effect one after
  another; the list is the order in which they do.
\<close>

fun conditional_updates :: "patterndb \<Rightarrow> index \<Rightarrow> 32 word list \<Rightarrow> int list \<times> patterndb" where
  "conditional_updates pdb idx [] = ([], pdb)"
| "conditional_updates pdb idx (d # ds) =
     (case pdb_conditional_update pdb idx (ucast UNREACHED) d of
        (r, pdb') \<Rightarrow> (case conditional_updates pdb' idx ds of (rs, pdb'') \<Rightarrow> (r # rs, pdb'')))"

text \<open>A pattern database after \<^verbatim>\<open>pdb_clear\<close>: every byte is \<^verbatim>\<open>UNREACHED\<close>.\<close>

definition cleared :: patterndb where
  "cleared = \<lparr>has_zero_tile = True, n_eqclass = (\<lambda>m. 5), tables = (\<lambda>m off. UNREACHED)\<rparr>"

subsection \<open>The ways \<^verbatim>\<open>expround\<close> ends the program\<close>

text \<open>
  A failure is diagnosed when it is \<^verbatim>\<open>exit(EXIT_FAILURE)\<close> after \<^verbatim>\<open>perror\<close> has named
  \<^verbatim>\<open>getpuzzle\<close>, \<^verbatim>\<open>putpuzzle\<close> or the path of a bucket file. The other way a run
  ends before its time is a step that C leaves undefined.
\<close>

definition diagnosed :: "string \<Rightarrow> failure \<Rightarrow> bool" where
  "diagnosed dir f =
     (\<exists>text. f = Exit EXIT_FAILURE text \<and>
        (text = ''getpuzzle'' \<or> text = ''putpuzzle'' \<or> (\<exists>round loc. text = rdxpath dir round loc)))"

definition stops :: "string \<Rightarrow> failure \<Rightarrow> bool" where
  "stops dir f = (f = Undefined \<or> diagnosed dir f)"

section \<open>Runs without a failing library call\<close>

lemma library_call_Nil [simp]: "library_call [] = (False, [])"
  by (simp add: library_call_def)

lemma library_call_Cons [simp]: "library_call (b # w) = (b, w)"
  by (simp add: library_call_def)

lemma getpuzzle_ok [simp]:
  "getpuzzle [] [] = Inr (None, [], [])"
  "getpuzzle (cp # rest) [] = Inr (Some cp, rest, [])"
  by (simp_all add: getpuzzle_def)

lemma putpuzzle_ok [simp]: "putpuzzle cpfile cp [] = Inr (cpfile @ [cp], [])"
  by (simp add: putpuzzle_def)

lemma coalesce_loop_ok:
  "coalesce_loop H outfile infile a [] =
     Inr (outfile @ coalesce_pass (MOVE_MASK H) a infile, [], [])"
proof (induction infile arbitrary: outfile a)
  case Nil
  show ?case by (subst coalesce_loop.simps) simp
next
  case (Cons b bs)
  show ?case by (subst coalesce_loop.simps) (simp add: Cons.IH)
qed

lemma coalesce_ok:
  "coalesce H outfile infile [] = Inr (outfile @ coalesce_spec (MOVE_MASK H) infile, [], [])"
  by (cases infile) (simp_all add: coalesce_def coalesce_loop_ok)

lemma coalesce_pass_not_Nil: "coalesce_pass mm a bs \<noteq> []"
  by (induction bs arbitrary: a) simp_all

section \<open>Streams in which equal configurations are adjacent\<close>

lemma adjacent_runs_tl: "adjacent_runs (x # xs) \<Longrightarrow> adjacent_runs xs"
  unfolding adjacent_runs_def
proof (intro allI impI)
  fix i j k
  assume a: "\<forall>i j k. i < k \<and> k < j \<and> j < length (x # xs) \<and> (x # xs) ! i = (x # xs) ! j \<longrightarrow> (x # xs) ! k = (x # xs) ! i"
    and b: "i < k \<and> k < j \<and> j < length xs \<and> xs ! i = xs ! j"
  from a [rule_format, of "Suc i" "Suc k" "Suc j"] b show "xs ! k = xs ! i" by simp
qed

lemma adjacent_runs_head:
  assumes "adjacent_runs (x # y # xs)" and "x \<noteq> y"
  shows "x \<notin> set (y # xs)"
proof
  assume "x \<in> set (y # xs)"
  then obtain m where m: "m < length (y # xs)" "(y # xs) ! m = x"
    unfolding in_set_conv_nth by blast
  with assms(2) have "m \<noteq> 0" by (cases m) auto
  then have "0 < Suc 0 \<and> Suc 0 < Suc m \<and> Suc m < length (x # y # xs) \<and> (x # y # xs) ! 0 = (x # y # xs) ! Suc m"
    using m by auto
  with assms(1) have "(x # y # xs) ! Suc 0 = (x # y # xs) ! 0"
    unfolding adjacent_runs_def by blast
  with assms(2) show False by simp
qed

lemma adjacent_runs_distinct: "adjacent_runs cs \<Longrightarrow> distinct (remdups_adj cs)"
proof (induction cs rule: remdups_adj.induct)
  case (3 x y xs)
  show ?case
  proof (cases "x = y")
    case True
    with 3 show ?thesis by (auto dest: adjacent_runs_tl)
  next
    case False
    with 3 adjacent_runs_head [OF "3.prems" False] show ?thesis
      by (auto dest: adjacent_runs_tl)
  qed
qed simp_all

lemma distinct_adjacent_runs: "distinct (remdups_adj cs) \<Longrightarrow> adjacent_runs cs"
proof (induction cs rule: remdups_adj.induct)
  case 1
  show ?case by (simp add: adjacent_runs_def)
next
  case (2 x)
  show ?case by (simp add: adjacent_runs_def)
next
  case (3 x y xs)
  show ?case
  proof (cases "x = y")
    case True
    with 3 have ih: "adjacent_runs (x # xs)" by simp
    show ?thesis
      unfolding adjacent_runs_def
    proof (intro allI impI)
      fix i j k
      assume h: "i < k \<and> k < j \<and> j < length (x # y # xs) \<and> (x # y # xs) ! i = (x # y # xs) ! j"
      then obtain k' j' where kj: "k = Suc k'" "j = Suc j'"
        by (cases k; cases j) auto
      show "(x # y # xs) ! k = (x # y # xs) ! i"
      proof (cases i)
        case 0
        show ?thesis
        proof (cases k')
          case 0
          with \<open>i = 0\<close> kj True show ?thesis by simp
        next
          case (Suc k'')
          have "0 < k' \<and> k' < j' \<and> j' < length (x # xs) \<and> (x # xs) ! 0 = (x # xs) ! j'"
            using h kj Suc \<open>i = 0\<close> True by auto
          with ih have "(x # xs) ! k' = (x # xs) ! 0"
            unfolding adjacent_runs_def by blast
          with kj \<open>i = 0\<close> True show ?thesis by simp
        qed
      next
        case (Suc i')
        have "i' < k' \<and> k' < j' \<and> j' < length (x # xs) \<and> (x # xs) ! i' = (x # xs) ! j'"
          using h kj Suc True by auto
        with ih have "(x # xs) ! k' = (x # xs) ! i'"
          unfolding adjacent_runs_def by blast
        with kj Suc True show ?thesis by simp
      qed
    qed
  next
    case False
    with 3 have ih: "adjacent_runs (y # xs)" and nx: "x \<notin> set (y # xs)" by auto
    show ?thesis
      unfolding adjacent_runs_def
    proof (intro allI impI)
      fix i j k
      assume h: "i < k \<and> k < j \<and> j < length (x # y # xs) \<and> (x # y # xs) ! i = (x # y # xs) ! j"
      then obtain k' j' where kj: "k = Suc k'" "j = Suc j'"
        by (cases k; cases j) auto
      show "(x # y # xs) ! k = (x # y # xs) ! i"
      proof (cases i)
        case 0
        with h kj have "(y # xs) ! j' = x" and "j' < length (y # xs)" by auto
        then have "x \<in> set (y # xs)" using nth_mem by metis
        with nx show ?thesis by simp
      next
        case (Suc i')
        have "i' < k' \<and> k' < j' \<and> j' < length (y # xs) \<and> (y # xs) ! i' = (y # xs) ! j'"
          using h kj Suc by auto
        with ih have "(y # xs) ! k' = (y # xs) ! i'"
          unfolding adjacent_runs_def by blast
        with kj Suc show ?thesis by simp
      qed
    qed
  qed
qed

section \<open>The coalescing pass\<close>

lemma same_conf_iff:
  "(hi a = hi b \<and> (lo a XOR lo b) AND NOT mm = 0) = (conf mm a = conf mm b)"
  by (metis (no_types, lifting) bit.conj_xor_distrib2 bit.xor_left_self
    conf_def old.prod.inject xor.right_neutral)

lemma conf_merge: "conf mm a = conf mm b \<Longrightarrow> conf mm (a\<lparr>lo := lo a OR lo b\<rparr>) = conf mm a"
  by (simp add: conf_def bit.conj_disj_distrib2)

lemma map_conf_coalesce_pass:
  "map (conf mm) (coalesce_pass mm a bs) = remdups_adj (map (conf mm) (a # bs))"
proof (induction bs arbitrary: a)
  case Nil
  show ?case by simp
next
  case (Cons b bs)
  show ?case
  proof (cases "conf mm a = conf mm b")
    case True
    then show ?thesis
      using Cons.IH [of "a\<lparr>lo := lo a OR lo b\<rparr>"] by (simp add: same_conf_iff conf_merge)
  next
    case False
    then show ?thesis
      using Cons.IH [of b] by (simp add: same_conf_iff)
  qed
qed

lemma map_conf_coalesce_spec:
  "map (conf mm) (coalesce_spec mm xs) = remdups_adj (map (conf mm) xs)"
  by (cases xs) (simp_all add: map_conf_coalesce_pass)

lemma coalesce_pass_fixed:
  "distinct_adj (map (conf mm) (a # bs)) \<Longrightarrow> coalesce_pass mm a bs = a # bs"
  by (induction bs arbitrary: a) (simp_all add: same_conf_iff)

lemma coalesce_spec_idem: "coalesce_spec mm (coalesce_spec mm xs) = coalesce_spec mm xs"
proof -
  have "distinct_adj (map (conf mm) (coalesce_spec mm xs))"
    by (simp add: map_conf_coalesce_spec)
  then show ?thesis
    by (cases "coalesce_spec mm xs") (simp_all add: coalesce_pass_fixed)
qed

lemma coalesce_pass_group:
  assumes "\<forall>r \<in> set g. conf mm r = conf mm a"
    and "post = [] \<or> conf mm (hd post) \<noteq> conf mm a"
  shows "coalesce_pass mm a (g @ post) =
           a\<lparr>lo := foldl (OR) (lo a) (map lo g)\<rparr> # coalesce_spec mm post"
  using assms
proof (induction g arbitrary: a)
  case Nil
  then show ?case by (cases post) (auto simp: same_conf_iff)
next
  case (Cons b g)
  have ab: "conf mm a = conf mm b" using Cons.prems(1) by simp
  have "coalesce_pass mm (a\<lparr>lo := lo a OR lo b\<rparr>) (g @ post) =
          a\<lparr>lo := lo a OR lo b\<rparr>\<lparr>lo := foldl (OR) (lo (a\<lparr>lo := lo a OR lo b\<rparr>)) (map lo g)\<rparr>
            # coalesce_spec mm post"
    using Cons.prems ab by (intro Cons.IH) (simp_all add: conf_merge)
  with ab show ?case by (simp add: same_conf_iff)
qed

lemma coalesce_pass_split:
  assumes "conf mm (last (a # bs)) \<noteq> conf mm x"
  shows "coalesce_pass mm a (bs @ x # rest) = coalesce_pass mm a bs @ coalesce_pass mm x rest"
  using assms
proof (induction bs arbitrary: a)
  case Nil
  then show ?case by (simp add: same_conf_iff)
next
  case (Cons b bs)
  show ?case
  proof (cases "conf mm a = conf mm b")
    case True
    have "conf mm (last (a\<lparr>lo := lo a OR lo b\<rparr> # bs)) \<noteq> conf mm x"
      using Cons.prems True by (cases bs) (simp_all add: conf_merge)
    from Cons.IH [OF this] True show ?thesis by (simp add: same_conf_iff)
  next
    case False
    have "conf mm (last (b # bs)) \<noteq> conf mm x" using Cons.prems by simp
    from Cons.IH [OF this] False show ?thesis by (simp add: same_conf_iff)
  qed
qed

lemma coalesce_spec_group:
  assumes "\<forall>r \<in> set g. conf mm r = conf mm x"
    and "pre = [] \<or> conf mm (last pre) \<noteq> conf mm x"
    and "post = [] \<or> conf mm (hd post) \<noteq> conf mm x"
  shows "coalesce_spec mm (pre @ (x # g) @ post) =
           coalesce_spec mm pre @ [x\<lparr>lo := foldl (OR) (lo x) (map lo g)\<rparr>] @ coalesce_spec mm post"
proof (cases pre)
  case Nil
  with coalesce_pass_group [OF assms(1) assms(3)] show ?thesis by simp
next
  case (Cons a bs)
  with assms(2) have "conf mm (last (a # bs)) \<noteq> conf mm x" by simp
  from coalesce_pass_split [OF this, of "g @ post"] coalesce_pass_group [OF assms(1) assms(3)] Cons
  show ?thesis by simp
qed

lemma foldl_OR_and:
  "foldl (OR) z (map lo g) AND mm = (z AND mm) OR mask_union mm g"
proof (induction g arbitrary: z)
  case Nil
  show ?case by (simp add: mask_union_def)
next
  case (Cons a g)
  have "foldl (OR) (z OR lo a) (map lo g) AND mm = ((z OR lo a) AND mm) OR mask_union mm g"
    by (rule Cons.IH)
  also have "\<dots> = (z AND mm) OR ((lo a AND mm) OR mask_union mm g)"
    by (simp add: bit.conj_disj_distrib2 or.assoc)
  finally show ?case by (simp add: mask_union_def)
qed

lemma conf_foldl:
  "\<forall>r \<in> set g. conf mm r = conf mm a \<Longrightarrow>
     conf mm (a\<lparr>lo := foldl (OR) (lo a) (map lo g)\<rparr>) = conf mm a"
proof (induction g arbitrary: a)
  case Nil
  show ?case by simp
next
  case (Cons b g)
  have ab: "conf mm a = conf mm b" using Cons.prems by simp
  have "conf mm (a\<lparr>lo := lo a OR lo b\<rparr>\<lparr>lo := foldl (OR) (lo (a\<lparr>lo := lo a OR lo b\<rparr>)) (map lo g)\<rparr>) =
          conf mm (a\<lparr>lo := lo a OR lo b\<rparr>)"
    using Cons.prems ab by (intro Cons.IH) (simp add: conf_merge)
  with ab show ?case by (simp add: conf_merge)
qed

lemma grid_MOVE_MASK [simp]: "MOVE_MASK grid_helpers = 15"
  by (simp add: grid_helpers_def)

section \<open>Properties of \<^verbatim>\<open>coalesce\<close>\<close>

text \<open>
  C10. When the very first read returns \<^verbatim>\<open>EOF\<close>, \<^verbatim>\<open>coalesce\<close> returns at once: it
  has made one library call (the read that met the end of the stream), no write, and
  the output stream is as it was. For every non-empty input, in a run in which no
  library call fails, \<^verbatim>\<open>coalesce\<close> appends at least one record to the output stream.
\<close>

theorem coalesce_empty_input:
  "coalesce H outfile [] (False # w) = Inr (outfile, [], w) \<and>
   coalesce H outfile [] [] = Inr (outfile, [], []) \<and>
   (infile \<noteq> [] \<longrightarrow>
      (\<exists>emitted. emitted \<noteq> [] \<and>
         coalesce H outfile infile [] = Inr (outfile @ emitted, [], [])))"
proof -
  have "coalesce H outfile [] (False # w) = Inr (outfile, [], w)"
    by (simp add: coalesce_def getpuzzle_def)
  moreover have "coalesce H outfile [] [] = Inr (outfile, [], [])"
    by (simp add: coalesce_def)
  moreover have "\<exists>emitted. emitted \<noteq> [] \<and>
      coalesce H outfile infile [] = Inr (outfile @ emitted, [], [])" if "infile \<noteq> []"
  proof -
    from that obtain a bs where "infile = a # bs" by (cases infile) auto
    then have "coalesce_spec (MOVE_MASK H) infile \<noteq> []"
      by (simp add: coalesce_pass_not_Nil)
    then show ?thesis using coalesce_ok by blast
  qed
  ultimately show ?thesis by blast
qed

theorem coalesce_empty_input_witness:
  "[\<lparr>lo = 5, hi = 1\<rparr>] \<noteq> ([] :: 64 word FILE) \<and>
   (\<exists>emitted. emitted \<noteq> [] \<and>
      coalesce grid_helpers [] [\<lparr>lo = 5, hi = 1\<rparr>] [] = Inr ([] @ emitted, [], []))"
  using coalesce_empty_input [of grid_helpers "[]" "[]" "[\<lparr>lo = 5, hi = 1\<rparr>]"] by simp

text \<open>
  C2. In a run in which no library call fails, \<^verbatim>\<open>coalesce\<close> appends to the output
  stream what the one linear pass of the specification emits (\<open>coalesce_spec\<close>: hold a
  record \<open>a\<close>; merge the masks of a next record \<open>b\<close> into it when \<open>a.hi = b.hi\<close> and
  \<open>(a.lo XOR b.lo) AND NOT MOVE_MASK = 0\<close>, else emit \<open>a\<close> and hold \<open>b\<close>; emit the last
  \<open>a\<close> at the end), and it reads the input to its end. When the records of the same
  configuration are adjacent in the input, the records emitted have pairwise distinct
  configurations, and these are exactly the configurations of the input: one record for
  each.
\<close>

theorem coalesce_linear_pass:
  "coalesce H outfile infile [] = Inr (outfile @ coalesce_spec (MOVE_MASK H) infile, [], []) \<and>
   (adjacent_runs (map (conf (MOVE_MASK H)) infile) \<longrightarrow>
      distinct (map (conf (MOVE_MASK H)) (coalesce_spec (MOVE_MASK H) infile)) \<and>
      set (map (conf (MOVE_MASK H)) (coalesce_spec (MOVE_MASK H) infile)) =
        set (map (conf (MOVE_MASK H)) infile))"
  by (simp add: coalesce_ok map_conf_coalesce_spec adjacent_runs_distinct)

theorem coalesce_linear_pass_witness:
  "adjacent_runs (map (conf (MOVE_MASK grid_helpers))
      [\<lparr>lo = 16, hi = 0\<rparr>, \<lparr>lo = 33, hi = 0\<rparr>, \<lparr>lo = 34, hi = 0\<rparr>]) \<and>
   coalesce grid_helpers [] [\<lparr>lo = 16, hi = 0\<rparr>, \<lparr>lo = 33, hi = 0\<rparr>, \<lparr>lo = 34, hi = 0\<rparr>] [] =
     Inr ([\<lparr>lo = 16, hi = 0\<rparr>, \<lparr>lo = 35, hi = 0\<rparr>], [], []) \<and>
   distinct (map (conf (MOVE_MASK grid_helpers)) [\<lparr>lo = 16, hi = 0\<rparr>, \<lparr>lo = 35, hi = 0\<rparr>])"
proof -
  have a: "adjacent_runs (map (conf (MOVE_MASK grid_helpers))
      [\<lparr>lo = 16, hi = 0\<rparr>, \<lparr>lo = 33, hi = 0\<rparr>, \<lparr>lo = 34, hi = 0\<rparr>])"
    by (rule distinct_adjacent_runs) (simp add: conf_def)
  show ?thesis
    using a coalesce_linear_pass [of grid_helpers "[]" "[\<lparr>lo = 16, hi = 0\<rparr>, \<lparr>lo = 33, hi = 0\<rparr>, \<lparr>lo = 34, hi = 0\<rparr>]"]
    by (simp add: conf_def)
qed

text \<open>
  C5. Let the input be \<open>pre @ g @ post\<close>, where \<open>g\<close> is a group of records of one
  configuration (the same \<^verbatim>\<open>hi\<close>, the same \<^verbatim>\<open>lo\<close> outside the mask field) that is
  maximal: the record before it and the record after it, where there is one, have
  another configuration. Then \<^verbatim>\<open>coalesce\<close> emits one record \<open>m\<close> for the group,
  between what it emits for \<open>pre\<close> and for \<open>post\<close>; \<open>m\<close> has the configuration of the
  group, and its mask field is the bitwise OR of the mask fields of all records of \<open>g\<close>.
\<close>

theorem coalesce_group_mask:
  assumes "g \<noteq> []"
    and "\<forall>r \<in> set g. conf (MOVE_MASK H) r = conf (MOVE_MASK H) (hd g)"
    and "pre = [] \<or> conf (MOVE_MASK H) (last pre) \<noteq> conf (MOVE_MASK H) (hd g)"
    and "post = [] \<or> conf (MOVE_MASK H) (hd post) \<noteq> conf (MOVE_MASK H) (hd g)"
  shows "\<exists>m. coalesce H outfile (pre @ g @ post) [] =
               Inr (outfile @ coalesce_spec (MOVE_MASK H) pre @ [m] @
                      coalesce_spec (MOVE_MASK H) post, [], []) \<and>
             conf (MOVE_MASK H) m = conf (MOVE_MASK H) (hd g) \<and>
             lo m AND MOVE_MASK H = mask_union (MOVE_MASK H) g"
proof -
  from assms(1) obtain x g' where g: "g = x # g'" by (cases g) auto
  let ?m = "x\<lparr>lo := foldl (OR) (lo x) (map lo g')\<rparr>"
  have 1: "coalesce_spec (MOVE_MASK H) (pre @ g @ post) =
        coalesce_spec (MOVE_MASK H) pre @ [?m] @ coalesce_spec (MOVE_MASK H) post"
    unfolding g using assms(2-4) by (intro coalesce_spec_group) (simp_all add: g)
  have 2: "lo ?m AND MOVE_MASK H = mask_union (MOVE_MASK H) g"
    by (simp add: g foldl_OR_and) (simp add: mask_union_def)
  have 3: "conf (MOVE_MASK H) ?m = conf (MOVE_MASK H) (hd g)"
    using assms(2) conf_foldl [of g' "MOVE_MASK H" x] by (simp add: g)
  from 1 2 3 show ?thesis by (auto simp: coalesce_ok)
qed

theorem coalesce_group_mask_witness:
  "\<exists>m. coalesce grid_helpers [] ([\<lparr>lo = 16, hi = 0\<rparr>] @ [\<lparr>lo = 33, hi = 0\<rparr>, \<lparr>lo = 34, hi = 0\<rparr>] @ [\<lparr>lo = 48, hi = 0\<rparr>]) [] =
          Inr ([] @ coalesce_spec (MOVE_MASK grid_helpers) [\<lparr>lo = 16, hi = 0\<rparr>] @ [m] @
                 coalesce_spec (MOVE_MASK grid_helpers) [\<lparr>lo = 48, hi = 0\<rparr>], [], []) \<and>
        lo m AND MOVE_MASK grid_helpers = 3"
proof -
  have "\<exists>m. coalesce grid_helpers [] ([\<lparr>lo = 16, hi = 0\<rparr>] @ [\<lparr>lo = 33, hi = 0\<rparr>, \<lparr>lo = 34, hi = 0\<rparr>] @ [\<lparr>lo = 48, hi = 0\<rparr>]) [] =
          Inr ([] @ coalesce_spec (MOVE_MASK grid_helpers) [\<lparr>lo = 16, hi = 0\<rparr>] @ [m] @
                 coalesce_spec (MOVE_MASK grid_helpers) [\<lparr>lo = 48, hi = 0\<rparr>], [], []) \<and>
        conf (MOVE_MASK grid_helpers) m = conf (MOVE_MASK grid_helpers) (hd [\<lparr>lo = 33, hi = 0\<rparr>, \<lparr>lo = 34, hi = 0\<rparr>]) \<and>
        lo m AND MOVE_MASK grid_helpers = 3"
    using coalesce_group_mask [of "[\<lparr>lo = 33, hi = 0\<rparr>, \<lparr>lo = 34, hi = 0\<rparr>]" grid_helpers
      "[\<lparr>lo = 16, hi = 0\<rparr>]" "[\<lparr>lo = 48, hi = 0\<rparr>]" "[]"]
    by (simp add: conf_def mask_union_def)
  then show ?thesis by blast
qed

text \<open>
  C6. Coalescing is idempotent: \<^verbatim>\<open>coalesce\<close> applied to the stream that \<^verbatim>\<open>coalesce\<close> has
  produced yields that stream again.
\<close>

theorem coalesce_idempotent:
  "\<exists>out. coalesce H [] infile [] = Inr (out, [], []) \<and> coalesce H [] out [] = Inr (out, [], [])"
  by (simp add: coalesce_ok coalesce_spec_idem)

section \<open>The loop of \<^verbatim>\<open>expandpuzzle\<close>\<close>

lemma mask_test: "((m :: int) AND push_bit i 1 \<noteq> 0) = bit m i"
  by (simp only: bit_iff_and_push_bit_not_eq_0)

lemma mask_test_power: "((m :: int) AND 2 ^ i = 0) = (\<not> bit m i)"
  using mask_test [of m i] unfolding push_bit_of_1 by blast

lemma expand_moves_masked:
  "\<forall>i \<in> set js. bit m i \<Longrightarrow> expand_moves H m z js outfiles p w = Inr (outfiles, p, w)"
  by (induction js) (simp_all add: mask_test_power)

lemma expand_moves_unmasked:
  "\<exists>i \<in> set js. \<not> bit m i \<Longrightarrow> expand_moves H m z js outfiles p w = Inl Undefined"
proof (induction js)
  case Nil
  then show ?case by simp
next
  case (Cons i js)
  then show ?case
    by (cases "bit m i") (simp_all add: mask_test_power putpuzzle_at_def Let_def)
qed

lemma expandpuzzle_unmasked:
  "unmasked_moves H cp \<noteq> [] \<Longrightarrow> expandpuzzle H outfiles cp w = Inl Undefined"
proof -
  assume "unmasked_moves H cp \<noteq> []"
  then have "\<exists>i \<in> set [0..<move_count H (parent_zloc H cp)]. \<not> bit (move_mask H cp) i"
    by (auto simp: unmasked_moves_def filter_empty_conv)
  then show ?thesis
    by (simp add: expandpuzzle_def Let_def parent_zloc_def expand_moves_unmasked)
qed

lemma expandpuzzle_masked:
  "unmasked_moves H cp = [] \<Longrightarrow> expandpuzzle H outfiles cp w = Inr (outfiles, w)"
proof -
  assume "unmasked_moves H cp = []"
  then have "\<forall>i \<in> set [0..<move_count H (parent_zloc H cp)]. bit (move_mask H cp) i"
    by (auto simp: unmasked_moves_def filter_empty_conv)
  then show ?thesis
    by (simp add: expandpuzzle_def Let_def parent_zloc_def expand_moves_masked)
qed

lemma grid_layer0:
  "unmasked_moves grid_helpers layer0 = [0, 1]"
  "children grid_helpers layer0 =
     [\<lparr>lo = 6526423501624606737, hi = 854193664183220652\<rparr>,
      \<lparr>lo = 6526423498940252753, hi = 854193664183220652\<rparr>]"
  "map (\<lambda>i. tiles (moved grid_helpers layer0 i) ! (TILE_COUNT - 1)) [0, 1] = [24, 24]"
  "unmasked_moves grid_helpers (layer0\<lparr>lo := lo layer0 OR 3\<rparr>) = []"
  by code_simp+

section \<open>Properties of \<^verbatim>\<open>expandpuzzle\<close>\<close>

text \<open>
  C3. What \<^verbatim>\<open>expandpuzzle\<close> does with a record, whatever the helpers and the schedule
  of failing calls. When a move index below \<open>n_move\<close> has its bit not set in the mask,
  the loop makes the first such move, packs the child, and hands \<^verbatim>\<open>putpuzzle\<close> the address
  \<^verbatim>\<open>outfiles + p.tiles[TILE_COUNT - 1]\<close> in the place of the bucket file: the write is
  undefined, no child is written into a bucket file, and the move back is not reached.
  Only a record all of whose moves are masked passes: \<^verbatim>\<open>expandpuzzle\<close> returns with the
  bucket files as they were.
\<close>

theorem expandpuzzle_writes_no_child:
  "(unmasked_moves H cp \<noteq> [] \<longrightarrow> expandpuzzle H outfiles cp w = Inl Undefined) \<and>
   (unmasked_moves H cp = [] \<longrightarrow> expandpuzzle H outfiles cp w = Inr (outfiles, w))"
  using expandpuzzle_unmasked [of H cp outfiles w] expandpuzzle_masked [of H cp outfiles w]
  by blast

theorem expandpuzzle_writes_no_child_witness:
  "unmasked_moves grid_helpers layer0 = [0, 1] \<and>
   children grid_helpers layer0 =
     [\<lparr>lo = 6526423501624606737, hi = 854193664183220652\<rparr>,
      \<lparr>lo = 6526423498940252753, hi = 854193664183220652\<rparr>] \<and>
   expandpuzzle grid_helpers (\<lambda>loc. []) layer0 [] = Inl Undefined \<and>
   unmasked_moves grid_helpers (layer0\<lparr>lo := lo layer0 OR 3\<rparr>) = [] \<and>
   expandpuzzle grid_helpers (\<lambda>loc. []) (layer0\<lparr>lo := lo layer0 OR 3\<rparr>) [] = Inr (\<lambda>loc. [], [])"
  using expandpuzzle_writes_no_child [of grid_helpers layer0 "\<lambda>loc. []" "[]"]
    expandpuzzle_writes_no_child [of grid_helpers "layer0\<lparr>lo := lo layer0 OR 3\<rparr>" "\<lambda>loc. []" "[]"]
    grid_layer0
  by simp

section \<open>The passes of \<^verbatim>\<open>expround\<close> in a run without a failing library call\<close>

lemma unread_Nil [simp]: "unread cpfile = []"
  by (simp add: unread_def)

lemma makerdxfiles_loop_ok:
  "makerdxfiles_loop dir round js files [] =
     Inr (\<lambda>loc. if loc \<in> set js then [] else files loc, [])"
  by (induction js arbitrary: files) (simp_all add: fun_eq_iff)

lemma makerdxfiles_ok:
  "makerdxfiles files dir round [] = Inr (\<lambda>loc. if loc < TILE_COUNT then [] else files loc, [])"
  by (simp add: makerdxfiles_def makerdxfiles_loop_ok)

lemma removerdxfile_ok [simp]: "removerdxfile dir round loc [] = []"
  by (simp add: removerdxfile_def)

lemma distribute_ok: "distribute H outfiles [] t [] = Inr (outfiles, [], [])"
  by (subst distribute.simps) simp

lemma distribute_files_ok:
  "distribute_files H dir round locs rdxfiles oldrdxfiles [] = Inr (rdxfiles, [])"
  by (induction locs) (simp_all add: distribute_ok)

lemma read_buckets_empty:
  "read_buckets (\<lambda>loc. if loc < TILE_COUNT then [] else rdxfiles loc) = []"
  by (simp add: read_buckets_def)

lemma radix_rounds_ok:
  "\<exists>rdx. radix_rounds H dir r rdxfiles [] = Inr (rdx, []) \<and>
     (0 < r \<longrightarrow> read_buckets rdx = [])"
proof (induction r arbitrary: rdxfiles)
  case 0
  show ?case by simp
next
  case (Suc r)
  let ?new = "\<lambda>loc. if loc < TILE_COUNT then [] else rdxfiles loc"
  from Suc [of ?new] obtain rdx where
    r: "radix_rounds H dir r ?new [] = Inr (rdx, [])" and
    e: "0 < r \<longrightarrow> read_buckets rdx = []"
    by blast
  have "r = 0 \<longrightarrow> rdx = ?new"
    using r by auto
  with e have "read_buckets rdx = []"
    by (cases r) (simp_all add: read_buckets_empty)
  with r show ?case
    by (simp add: makerdxfiles_ok distribute_files_ok)
qed

lemma coalesce_files_ok:
  "coalesce_files H dir round locs outfile rdxfiles [] = Inr (outfile, [])"
  by (induction locs) (simp_all add: coalesce_def)

lemma expand_stream_layer0:
  "expand_stream grid_helpers rdxfiles [layer0] [] = Inl Undefined"
  using grid_layer0(1)
  by (subst expand_stream.simps) (simp add: expandpuzzle_unmasked)

section \<open>Properties of the distribution passes\<close>

text \<open>
  C1. What the distribution passes do. On the stream of layer 0, the one record of the
  solved puzzle, in a run in which no library call fails, \<^verbatim>\<open>expround\<close> does not reach
  its rounds: the first write of the fused pass goes through the address of a bucket
  slot and is undefined. And whatever records the bucket files of round 23 hold when the
  rounds begin, the rounds read none of them: every old bucket is read where its
  stream stands after the writes, at its end, so \<^verbatim>\<open>distribute\<close> meets \<^verbatim>\<open>EOF\<close> at once, and
  the bucket files of the last round hold no record. Read in the order
  \<open>loc = 0, ..., 24\<close> they yield the empty sequence, which is a permutation of no
  multiset but the empty one.
\<close>

theorem radix_rounds_read_nothing:
  "expround_sort grid_helpers [layer0] dir [] = Inl Undefined \<and>
   (\<exists>rdx. radix_rounds H dir' (TILE_COUNT - 2) rdxfiles [] = Inr (rdx, []) \<and>
      read_buckets rdx = [])"
proof -
  have "expround_sort grid_helpers [layer0] dir [] = Inl Undefined"
    by (simp add: expround_sort_def makerdxfiles_ok expand_stream_layer0)
  moreover have "\<exists>rdx. radix_rounds H dir' (TILE_COUNT - 2) rdxfiles [] = Inr (rdx, []) \<and>
      read_buckets rdx = []"
    using radix_rounds_ok [of H dir' "TILE_COUNT - 2" rdxfiles] by (simp add: TILE_COUNT_def)
  ultimately show ?thesis by blast
qed

text \<open>
  C4. What the last loop of \<^verbatim>\<open>expround\<close> reads. On the stream of layer 0 \<^verbatim>\<open>expround\<close>
  does not reach the loop (the undefined write of the fused pass). And whatever records
  the final bucket files hold, the stream read from them in the order
  \<open>loc = 0, ..., 24\<close> is empty, each being read at the end of what was written to it: in
  a run in which no library call fails, \<^verbatim>\<open>coalesce\<close> gets no record and the output stream
  stays as it was. No record of the layer stands in the stream read, next to a record of
  its configuration or anywhere.
\<close>

theorem final_buckets_read_nothing:
  "expround grid_helpers outfile [layer0] dir [] = Inl Undefined \<and>
   concat (map (\<lambda>loc. unread (rdxfiles loc)) [0..<TILE_COUNT]) = [] \<and>
   coalesce_files H dir' 0 [0..<TILE_COUNT] outfile' rdxfiles [] = Inr (outfile', [])"
proof -
  have "expround grid_helpers outfile [layer0] dir [] = Inl Undefined"
    by (simp add: expround_def expround_sort_def makerdxfiles_ok expand_stream_layer0)
  then show ?thesis
    by (simp add: coalesce_files_ok)
qed

section \<open>Failing library calls\<close>

lemma makerdxfiles_loop_fails:
  "i < length js \<Longrightarrow>
     makerdxfiles_loop dir round js files (replicate i False @ True # w) =
       Inl (Exit EXIT_FAILURE (rdxpath dir round (js ! i)))"
proof (induction js arbitrary: i files)
  case Nil
  then show ?case by simp
next
  case (Cons j js)
  then show ?case by (cases i) simp_all
qed

lemma getpuzzle_stops: "getpuzzle cpfile w = Inl f \<Longrightarrow> stops dir f"
  by (auto simp: getpuzzle_def stops_def diagnosed_def split: prod.splits bool.splits list.splits)

lemma putpuzzle_stops: "putpuzzle cpfile cp w = Inl f \<Longrightarrow> stops dir f"
  by (auto simp: putpuzzle_def stops_def diagnosed_def split: prod.splits bool.splits)

lemma Undefined_stops [simp]: "stops dir Undefined"
  by (simp add: stops_def diagnosed_def)

lemma expand_moves_stops:
  "expand_moves H m z js outfiles p w = Inl f \<Longrightarrow> stops dir f"
proof (induction js arbitrary: outfiles p w)
  case Nil
  then show ?case by simp
next
  case (Cons i js)
  then show ?case
    by (auto simp: Let_def putpuzzle_at_def split: if_splits sum.splits prod.splits)
qed

lemma expandpuzzle_stops: "expandpuzzle H outfiles cp w = Inl f \<Longrightarrow> stops dir f"
  by (auto simp: expandpuzzle_def Let_def dest: expand_moves_stops split: sum.splits prod.splits)

lemma coalesce_loop_stops:
  "coalesce_loop H outfile infile a w = Inl f \<Longrightarrow> stops dir f"
proof (induction H outfile infile a w rule: coalesce_loop.induct)
  case (1 H outfile infile a w)
  from "1.prems" show ?case
    apply (subst (asm) coalesce_loop.simps)
    apply (auto dest: getpuzzle_stops putpuzzle_stops "1.IH"
        split: sum.splits prod.splits option.splits if_splits)
    done
qed

lemma coalesce_stops: "coalesce H outfile infile w = Inl f \<Longrightarrow> stops dir f"
  by (auto simp: coalesce_def dest: getpuzzle_stops coalesce_loop_stops
      split: sum.splits prod.splits option.splits)

lemma distribute_stops: "distribute H outfiles infile t w = Inl f \<Longrightarrow> stops dir f"
proof (induction H outfiles infile t w rule: distribute.induct)
  case (1 H outfiles infile t w)
  from "1.prems" show ?case
    apply (subst (asm) distribute.simps)
    apply (auto simp: Let_def putpuzzle_at_def dest: getpuzzle_stops "1.IH"
        split: sum.splits prod.splits option.splits if_splits)
    done
qed

lemma path_stops [simp]: "stops dir (Exit EXIT_FAILURE (rdxpath dir round loc))"
  by (auto simp: stops_def diagnosed_def)

lemma makerdxfiles_loop_stops:
  "makerdxfiles_loop dir round js files w = Inl f \<Longrightarrow> stops dir f"
proof (induction js arbitrary: files w)
  case Nil
  then show ?case by simp
next
  case (Cons i js)
  then show ?case
    by (auto simp: Let_def split: prod.splits bool.splits)
qed

lemma makerdxfiles_stops: "makerdxfiles files dir round w = Inl f \<Longrightarrow> stops dir f"
  by (auto simp: makerdxfiles_def dest: makerdxfiles_loop_stops)

lemma expand_stream_stops: "expand_stream H rdxfiles infile w = Inl f \<Longrightarrow> stops dir f"
proof (induction H rdxfiles infile w rule: expand_stream.induct)
  case (1 H rdxfiles infile w)
  from "1.prems" show ?case
    apply (subst (asm) expand_stream.simps)
    apply (auto dest: getpuzzle_stops expandpuzzle_stops "1.IH"
        split: sum.splits prod.splits option.splits if_splits)
    done
qed

lemma distribute_files_stops:
  "distribute_files H dir round locs rdxfiles old w = Inl f \<Longrightarrow> stops dir f"
proof (induction locs arbitrary: rdxfiles w)
  case Nil
  then show ?case by simp
next
  case (Cons loc locs)
  then show ?case
    by (auto dest: distribute_stops split: sum.splits prod.splits)
qed

lemma radix_rounds_stops:
  "radix_rounds H dir r rdxfiles w = Inl f \<Longrightarrow> stops dir f"
proof (induction r arbitrary: rdxfiles w)
  case 0
  then show ?case by simp
next
  case (Suc r)
  then show ?case
    by (auto simp: Let_def dest: makerdxfiles_stops distribute_files_stops
        split: sum.splits prod.splits)
qed

lemma coalesce_files_stops:
  "coalesce_files H dir round locs outfile rdxfiles w = Inl f \<Longrightarrow> stops dir f"
proof (induction locs arbitrary: outfile w)
  case Nil
  then show ?case by simp
next
  case (Cons loc locs)
  then show ?case
    by (auto dest: coalesce_stops split: sum.splits prod.splits)
qed

lemma expround_sort_stops: "expround_sort H infile dir w = Inl f \<Longrightarrow> stops dir f"
  by (auto simp: expround_sort_def Let_def
      dest: makerdxfiles_stops expand_stream_stops radix_rounds_stops
      split: sum.splits prod.splits)

lemma expround_stops: "expround H outfile infile dir w = Inl f \<Longrightarrow> stops dir f"
  by (auto simp: expround_def dest: expround_sort_stops coalesce_files_stops
      split: sum.splits prod.splits)

lemma makerdxfiles_loop_quiet:
  "makerdxfiles_loop dir round js files (replicate (length js) False @ w) =
     Inr (\<lambda>loc. if loc \<in> set js then [] else files loc, w)"
  by (induction js arbitrary: files) (simp_all add: fun_eq_iff)

lemma makerdxfiles_quiet:
  "makerdxfiles files dir round (replicate TILE_COUNT False @ w) =
     Inr (\<lambda>loc. if loc < TILE_COUNT then [] else files loc, w)"
  using makerdxfiles_loop_quiet [of dir round "[0..<TILE_COUNT]" files w]
  by (simp add: makerdxfiles_def)

lemma expround_ignores_close:
  "expround H [] [] dir (replicate TILE_COUNT False @ [False] @ replicate TILE_COUNT False @
      [False, True, True]) = Inr ([], [], [])"
proof -
  let ?empty = "\<lambda>loc. [] :: 'a word FILE"
  have 1: "distribute H ?empty [] (TILE_COUNT - 3) [False, True, True] = Inr (?empty, [], [True, True])"
    by (subst distribute.simps) (simp add: getpuzzle_def)
  have 3: "[0..<TILE_COUNT] = 0 # [1..<TILE_COUNT]"
    by (simp add: TILE_COUNT_def upt_conv_Cons)
  have 4: "distribute_files H dir (TILE_COUNT - 2) [0..<TILE_COUNT] ?empty ?empty [False, True, True] =
      Inr (?empty, [])"
    unfolding 3 using 1 by (simp add: removerdxfile_def distribute_files_ok TILE_COUNT_def)
  from radix_rounds_ok [of H dir "TILE_COUNT - 3" ?empty] obtain rdx where
    5: "radix_rounds H dir (TILE_COUNT - 3) ?empty [] = Inr (rdx, [])"
    by blast
  have 7: "radix_rounds H dir (TILE_COUNT - 2) ?empty (replicate TILE_COUNT False @ [False, True, True]) =
      Inr (rdx, [])"
  proof -
    have "TILE_COUNT - 2 = Suc (TILE_COUNT - 3)" by (simp add: TILE_COUNT_def)
    then show ?thesis
      using 4 5 by (simp add: makerdxfiles_quiet)
  qed
  have 8: "expround_sort H [] dir (replicate TILE_COUNT False @ [False] @ replicate TILE_COUNT False @
      [False, True, True]) = Inr (rdx, [], [])"
    using 7 by (simp add: expround_sort_def makerdxfiles_quiet expand_stream.simps getpuzzle_def)
  then show ?thesis
    by (simp add: expround_def coalesce_files_ok)
qed

lemma expround_fopen_fails:
  "expround grid_helpers [] [] ''dir'' [True] = Inl (Exit EXIT_FAILURE ''dir-23-00.rdx'')"
proof -
  have "rdxpath ''dir'' 23 0 = ''dir-23-00.rdx''"
    by code_simp
  moreover have "[0..<TILE_COUNT] = 0 # [1..<TILE_COUNT]"
    by (simp add: TILE_COUNT_def upt_conv_Cons)
  ultimately show ?thesis
    by (simp add: expround_def expround_sort_def makerdxfiles_def TILE_COUNT_def)
qed

text \<open>
  C8, as amended. A failing read in \<^verbatim>\<open>getpuzzle\<close> and a failing write in \<^verbatim>\<open>putpuzzle\<close> end
  the program with \<^verbatim>\<open>EXIT_FAILURE\<close>, which is not 0, after \<^verbatim>\<open>perror\<close> has named the
  function; a failing \<^verbatim>\<open>fopen\<close> of the bucket file \<open>i\<close> in \<^verbatim>\<open>makerdxfiles\<close> ends it with
  \<^verbatim>\<open>EXIT_FAILURE\<close> after \<^verbatim>\<open>perror\<close> has named the path of that file. Whenever
  \<^verbatim>\<open>expround\<close> ends the program, the failure is diagnosed in one of these ways, unless
  it is a step that C leaves undefined. Whether \<^verbatim>\<open>remove\<close> has failed makes no difference to
  \<^verbatim>\<open>removerdxfile\<close>: it returns.
\<close>

theorem io_failures:
  "getpuzzle cpfile (True # w) = Inl (Exit EXIT_FAILURE ''getpuzzle'') \<and>
   putpuzzle cpfile cp (True # w) = Inl (Exit EXIT_FAILURE ''putpuzzle'') \<and>
   (i < TILE_COUNT \<longrightarrow>
      makerdxfiles files dir round (replicate i False @ True # w) =
        Inl (Exit EXIT_FAILURE (rdxpath dir round i))) \<and>
   (expround H outfile infile dir w' = Inl f \<longrightarrow> f = Undefined \<or> diagnosed dir f) \<and>
   EXIT_FAILURE \<noteq> 0 \<and>
   removerdxfile dir round loc (failed # w) = w"
  using expround_stops [of H outfile infile dir w' f]
  by (simp add: getpuzzle_def putpuzzle_def makerdxfiles_def makerdxfiles_loop_fails
      removerdxfile_def EXIT_FAILURE_def stops_def)

theorem io_failures_witness:
  "(3 :: nat) < TILE_COUNT \<and>
   makerdxfiles (\<lambda>loc. [] :: 64 word FILE) ''dir'' 23 [False, False, False, True] =
     Inl (Exit EXIT_FAILURE ''dir-23-03.rdx'') \<and>
   expround grid_helpers [] [] ''dir'' [True] = Inl (Exit EXIT_FAILURE ''dir-23-00.rdx'') \<and>
   diagnosed ''dir'' (Exit EXIT_FAILURE ''dir-23-00.rdx'')"
proof -
  have "rdxpath ''dir'' 23 3 = ''dir-23-03.rdx''"
    by code_simp
  with io_failures [of "[] :: 64 word FILE" "[]" "\<lparr>lo = 0 :: 64 word, hi = 0\<rparr>" 3
      "\<lambda>loc. [] :: 64 word FILE" "''dir''" 23 grid_helpers "[]" "[]" "[True]"
      "Exit EXIT_FAILURE ''dir-23-00.rdx''" 0 True]
    expround_fopen_fails
  show ?thesis
    by (simp add: TILE_COUNT_def numeral_3_eq_3)
qed

text \<open>
  C8 as the spec states it fails for \<^verbatim>\<open>fclose\<close> and \<^verbatim>\<open>remove\<close>. Take \<^verbatim>\<open>expround\<close> on an
  empty input stream, in the run in which the 25 files of round 23 are opened, the input
  is read to its end, the 25 files of round 22 are opened, the old bucket 0 is read to
  its end, and then \<^verbatim>\<open>fclose\<close> of that bucket fails and \<^verbatim>\<open>remove\<close> of its file fails; no
  later call fails. \<^verbatim>\<open>expround\<close> goes on and returns, the output stream empty. And
  \<^verbatim>\<open>removerdxfile\<close> returns when \<^verbatim>\<open>remove\<close> fails.
\<close>

theorem io_failure_counterexample:
  "expround grid_helpers [] [] ''dir''
      (replicate TILE_COUNT False @ [False] @ replicate TILE_COUNT False @ [False, True, True]) =
     Inr ([], [], []) \<and>
   removerdxfile ''dir'' 23 0 [True] = []"
  using expround_ignores_close [of grid_helpers "''dir''"]
  by (simp add: removerdxfile_def)

section \<open>Properties of \<^verbatim>\<open>main\<close>\<close>

lemma layer_failure_stays:
  "layer D s i = Inl e \<Longrightarrow> i \<le> n \<Longrightarrow> layer D s n = Inl e"
  by (induction n) (auto simp: le_Suc_eq)

lemma layer_loop_run:
  assumes "int i \<le> limit s + 1" and "0 < i" and "limit s \<le> INT_MAX" and "int i \<le> INT_MAX"
    and "layer D s (i - 1) = Inr cps"
  shows "layer_loop D s (int i) cps out w =
           (case layer D s (nat (limit s)) of
              Inl e \<Rightarrow> Inl e
            | Inr c \<Rightarrow>
                if limit s = INT_MAX then Inl Undefined
                else Inr (out @ map (report D s) [i..<Suc (nat (limit s))]))"
  using assms
proof (induction "nat (limit s + 1 - int i)" arbitrary: i out w cps)
  case 0
  then have eq: "int i = limit s + 1" by simp
  with 0 have "\<not> int i \<le> limit s" "[i..<Suc (nat (limit s))] = []" "nat (limit s) = i - 1"
    "limit s \<noteq> INT_MAX" by auto
  with 0 show ?case by (subst layer_loop.simps) simp
next
  case (Suc k)
  then have le: "int i \<le> limit s" by simp
  have k: "k = nat (limit s + 1 - int (Suc i))" using Suc(2) by simp
  from Suc.prems(2) obtain j where i: "i = Suc j" by (cases i) auto
  have n: "i \<le> nat (limit s)" using le by simp
  show ?case
  proof (cases "layer D s i")
    case (Inl e)
    then have "layer D s (nat (limit s)) = Inl e" using n by (rule layer_failure_stays)
    moreover from Inl Suc.prems(5) have "cps_round D cps = Inl e \<or>
        (\<exists>c. cps_round D cps = Inr c \<and> sampled D s (int i) c = Inl e)"
      by (auto simp: i split: sum.splits)
    ultimately show ?thesis
      using le by (subst layer_loop.simps) (auto simp: sampled_def split: prod.splits)
  next
    case (Inr cps2)
    with Suc.prems(5) obtain c where c: "cps_round D cps = Inr c" "sampled D s (int i) c = Inr cps2"
      by (auto simp: i split: sum.splits)
    show ?thesis
    proof (cases "int i = INT_MAX")
      case True
      with le Suc.prems(3) have l: "limit s = INT_MAX" and "nat (limit s) = i" by auto
      with Inr have f: "layer D s (nat (limit s)) = Inr cps2" by simp
      have "layer_loop D s (int i) cps out w = Inl Undefined"
      proof -
        from c(2) have "(case samplefile s of None \<Rightarrow> Inr c
              | Some f \<Rightarrow> do_sampling D f c (int i) (n_samples s)) = Inr cps2"
          by (simp add: sampled_def)
        then show ?thesis
          using c(1) le
          by (subst layer_loop.simps) (simp add: True split: prod.splits)
      qed
      with f l show ?thesis by simp
    next
      case False
      have "layer_loop D s (int (Suc i)) cps2 (out @ [report D s i]) w' =
           (case layer D s (nat (limit s)) of
              Inl e \<Rightarrow> Inl e
            | Inr c \<Rightarrow>
                if limit s = INT_MAX then Inl Undefined
                else Inr ((out @ [report D s i]) @ map (report D s) [Suc i..<Suc (nat (limit s))]))" for w'
        using Suc.prems le False Inr by (intro Suc(1) [OF k]) auto
      moreover have "[i..<Suc (nat (limit s))] = i # [Suc i..<Suc (nat (limit s))]"
        using le by (intro upt_conv_Cons) auto
      moreover have "report D s i = (int i, length cps2)"
        using Inr by (simp add: report_def)
      ultimately show ?thesis
        using le False c
        by (subst layer_loop.simps) (auto simp: sampled_def add.commute split: prod.splits sum.splits)
    qed
  qed
qed

lemma getopt_loop_unknown:
  assumes "(c, a) \<in> set opts" and "c \<notin> {CHR ''f'', CHR ''l'', CHR ''n'', CHR ''s''}"
  shows "getopt_loop D argv0 opts s = Inl (usage argv0)"
  using assms
proof (induction opts arbitrary: s)
  case Nil
  then show ?case by simp
next
  case (Cons opt opts)
  then show ?case by (cases opt) auto
qed

lemma layer_empty_rounds:
  "samplefile s = None \<Longrightarrow>
     layer empty_rounds s i = Inr (if i = 0 then [solved_record empty_rounds] else [])"
  by (induction i) (simp_all add: sampled_def empty_rounds_def)

text \<open>
  C7, as amended. Let the options be read without error and let there be one positional
  argument. \<^verbatim>\<open>main\<close> computes layer after layer from the layer before it, whether that
  layer is empty or not, and no layer beyond the layer \<open>limit\<close>. When \<^verbatim>\<open>cps_round\<close> and
  \<^verbatim>\<open>do_sampling\<close> end the program for none of the layers up to \<open>limit\<close> and \<open>limit\<close> is
  less than \<^verbatim>\<open>INT_MAX\<close>, \<^verbatim>\<open>main\<close> returns exit status 0, having handed to \<^verbatim>\<open>printf\<close> the
  reports of the layers 0 to \<open>limit\<close> (of layer 0 alone for a negative \<open>limit\<close>), and this
  in every run, whichever calls of \<^verbatim>\<open>printf\<close> and \<^verbatim>\<open>fflush\<close> fail. When \<^verbatim>\<open>cps_round\<close> or
  \<^verbatim>\<open>do_sampling\<close> ends the program on the way to one of these layers, the run ends there,
  as they end it. With \<open>limit\<close> equal to \<^verbatim>\<open>INT_MAX\<close>, which is the default, the run that no
  collaborator ends comes to \<^verbatim>\<open>i++\<close> at \<^verbatim>\<open>INT_MAX\<close>. With another number of positional
  arguments, or an option that is none of \<open>f\<close>, \<open>l\<close>, \<open>n\<close>, \<open>s\<close>, \<^verbatim>\<open>main\<close> ends by
  \<^verbatim>\<open>usage\<close>: its line on \<^verbatim>\<open>stderr\<close> and \<^verbatim>\<open>exit(EXIT_FAILURE)\<close>, which is not 0.
\<close>

theorem main_layers:
  "(getopt_loop D argv0 opts default_settings = Inr s \<and> length args = 1 \<and>
      limit s < INT_MAX \<and> layer D s (nat (limit s)) = Inr cps \<longrightarrow>
      main D argv0 opts args w = Inr (0, map (report D s) [0..<Suc (nat (limit s))])) \<and>
   (getopt_loop D argv0 opts default_settings = Inr s \<and> length args = 1 \<and>
      limit s \<le> INT_MAX \<and> layer D s (nat (limit s)) = Inl e \<longrightarrow>
      main D argv0 opts args w = Inl e) \<and>
   (getopt_loop D argv0 opts default_settings = Inr s \<and> length args = 1 \<and>
      limit s = INT_MAX \<and> layer D s (nat (limit s)) = Inr cps \<longrightarrow>
      main D argv0 opts args w = Inl Undefined) \<and>
   (getopt_loop D argv0 opts default_settings = Inr s \<and> length args \<noteq> 1 \<longrightarrow>
      main D argv0 opts args w = Inl (usage argv0)) \<and>
   ((c, a) \<in> set opts \<and> c \<notin> {CHR ''f'', CHR ''l'', CHR ''n'', CHR ''s''} \<longrightarrow>
      main D argv0 opts args w = Inl (usage argv0)) \<and>
   (\<exists>text. usage argv0 = Exit EXIT_FAILURE text) \<and> EXIT_FAILURE \<noteq> 0 \<and>
   limit default_settings = INT_MAX"
proof -
  have run: "main D argv0 opts args w =
      (case layer D s (nat (limit s)) of
         Inl e \<Rightarrow> Inl e
       | Inr c \<Rightarrow>
           if limit s = INT_MAX then Inl Undefined
           else Inr (0, map (report D s) [0..<Suc (nat (limit s))]))"
    if g: "getopt_loop D argv0 opts default_settings = Inr s" and a: "length args = 1"
      and l: "limit s \<le> INT_MAX"
  proof (cases "layer D s 0")
    case (Inl e)
    then have "layer D s (nat (limit s)) = Inl e"
      by (rule layer_failure_stays) simp
    with Inl g a show ?thesis
      by (simp add: main_def sampled_def split: option.splits)
  next
    case (Inr cps0)
    have loop: "layer_loop D s 1 cps0 [report D s 0] w' =
        (case layer D s (nat (limit s)) of
           Inl e \<Rightarrow> Inl e
         | Inr c \<Rightarrow>
             if limit s = INT_MAX then Inl Undefined
             else Inr ([report D s 0] @ map (report D s) [1..<Suc (nat (limit s))]))" for w'
    proof (cases "0 \<le> limit s")
      case True
      then have "int 1 \<le> limit s + 1" by simp
      from layer_loop_run [OF this _ l, of D cps0 "[report D s 0]" w'] Inr show ?thesis
        by (simp add: INT_MAX_def)
    next
      case False
      then have "nat (limit s) = 0" "limit s \<noteq> INT_MAX" by (auto simp: INT_MAX_def)
      with Inr False show ?thesis
        by (subst layer_loop.simps) simp
    qed
    have m: "main D argv0 opts args w =
        (case layer_loop D s 1 cps0 [report D s 0] (snd (library_call (snd (library_call w)))) of
           Inl e \<Rightarrow> Inl e
         | Inr out \<Rightarrow> Inr (0, out))"
      using g a Inr
      by (auto simp: main_def sampled_def report_def split: prod.splits option.splits)
    have u: "[0..<Suc (nat (limit s))] = 0 # [1..<Suc (nat (limit s))]"
      by (simp add: upt_conv_Cons)
    show ?thesis
      unfolding m loop u by (simp split: sum.splits)
  qed
  have 3: "main D argv0 opts args w = Inl (usage argv0)"
    if "getopt_loop D argv0 opts default_settings = Inr s" "length args \<noteq> 1"
    using that by (simp add: main_def)
  have 4: "main D argv0 opts args w = Inl (usage argv0)"
    if "(c, a) \<in> set opts" "c \<notin> {CHR ''f'', CHR ''l'', CHR ''n'', CHR ''s''}"
    using getopt_loop_unknown [OF that, of D argv0 default_settings] by (simp add: main_def)
  show ?thesis
    using run 3 4 by (auto simp: usage_def EXIT_FAILURE_def default_settings_def)
qed

theorem main_layers_witness:
  "main empty_rounds ''puzzledistext'' [(CHR ''l'', ''3'')] [''dir''] [] =
     Inr (0, map (report empty_rounds (default_settings\<lparr>limit := 3\<rparr>)) [0..<Suc (nat 3)]) \<and>
   main failing_rounds ''puzzledistext'' [(CHR ''l'', ''3'')] [''dir''] [] =
     Inl (Exit EXIT_FAILURE ''cps_round'') \<and>
   main empty_rounds ''puzzledistext'' [] [''dir''] [] = Inl Undefined \<and>
   main empty_rounds ''puzzledistext'' [(CHR ''l'', ''3'')] [] [] = Inl (usage ''puzzledistext'') \<and>
   main empty_rounds ''puzzledistext'' [(CHR ''?'', [])] [''dir''] [] = Inl (usage ''puzzledistext'')"
proof -
  let ?s = "default_settings\<lparr>limit := 3\<rparr>"
  have g: "getopt_loop empty_rounds ''puzzledistext'' [(CHR ''l'', ''3'')] default_settings = Inr ?s"
    by (simp add: empty_rounds_def decimal_value_def)
  have g': "getopt_loop failing_rounds ''puzzledistext'' [(CHR ''l'', ''3'')] default_settings = Inr ?s"
    by (simp add: failing_rounds_def empty_rounds_def decimal_value_def)
  have l: "layer empty_rounds ?s (nat (limit ?s)) = Inr []"
    by (simp add: layer_empty_rounds default_settings_def)
  have l': "layer failing_rounds ?s (nat (limit ?s)) = Inl (Exit EXIT_FAILURE ''cps_round'')"
    by (simp add: numeral_3_eq_3 sampled_def failing_rounds_def empty_rounds_def default_settings_def)
  have d: "layer empty_rounds default_settings (nat (limit default_settings)) = Inr []"
    by (simp add: layer_empty_rounds default_settings_def INT_MAX_def)
  from main_layers [where D = empty_rounds and ?argv0.0 = "''puzzledistext''" and opts = "[(CHR ''l'', ''3'')]"
      and s = ?s and args = "[''dir'']" and w = "[]" and cps = "[]"]
    main_layers [where D = failing_rounds and ?argv0.0 = "''puzzledistext''" and opts = "[(CHR ''l'', ''3'')]"
      and s = ?s and args = "[''dir'']" and w = "[]" and e = "Exit EXIT_FAILURE ''cps_round''"]
    main_layers [where D = empty_rounds and ?argv0.0 = "''puzzledistext''" and opts = "[]"
      and s = default_settings and args = "[''dir'']" and w = "[]" and cps = "[]"]
    main_layers [where D = empty_rounds and ?argv0.0 = "''puzzledistext''" and opts = "[(CHR ''l'', ''3'')]"
      and s = ?s and args = "[]" and w = "[]"]
    main_layers [where D = empty_rounds and ?argv0.0 = "''puzzledistext''" and opts = "[(CHR ''?'', [])]"
      and args = "[''dir'']" and w = "[]" and c = "CHR ''?''" and a = "[]"]
    g g' l l' d
  show ?thesis by (simp add: INT_MAX_def)
qed

text \<open>
  C7 as the spec states it fails in three places. \<^verbatim>\<open>main\<close> does not stop at an empty
  layer: with \<^verbatim>\<open>-l 3\<close> and rounds that yield the empty slice, layer 1 is empty, and
  \<^verbatim>\<open>main\<close> goes on to compute and report the layers 2 and 3. A failing write to
  \<^verbatim>\<open>stdout\<close> does not make it exit nonzero: with \<^verbatim>\<open>-l 1\<close>, in the run in which both calls
  of \<^verbatim>\<open>printf\<close> before the loop, \<^verbatim>\<open>fflush\<close> and the \<^verbatim>\<open>printf\<close> in the loop all fail,
  \<^verbatim>\<open>main\<close> returns exit status 0. And with the default limit \<^verbatim>\<open>INT_MAX\<close> the loop does
  not end by completing its layers: it comes to \<^verbatim>\<open>i++\<close> at \<^verbatim>\<open>INT_MAX\<close>.
\<close>

theorem main_layers_counterexample:
  "main empty_rounds ''puzzledistext'' [(CHR ''l'', ''3'')] [''dir''] [] =
     Inr (0, [(0, 1), (1, 0), (2, 0), (3, 0)]) \<and>
   main empty_rounds ''puzzledistext'' [(CHR ''l'', ''1'')] [''dir''] [True, True, True, True] =
     Inr (0, [(0, 1), (1, 0)]) \<and>
   main empty_rounds ''puzzledistext'' [] [''dir''] [] = Inl Undefined"
proof -
  have "main empty_rounds ''puzzledistext'' [(CHR ''l'', ''3'')] [''dir''] [] =
     Inr (0, [(0, 1), (1, 0), (2, 0), (3, 0)])"
    by (simp add: main_def default_settings_def empty_rounds_def decimal_value_def
      layer_loop.simps INT_MAX_def)
  moreover have "main empty_rounds ''puzzledistext'' [(CHR ''l'', ''1'')] [''dir''] [True, True, True, True] =
     Inr (0, [(0, 1), (1, 0)])"
    by (simp add: main_def default_settings_def empty_rounds_def decimal_value_def
      layer_loop.simps INT_MAX_def library_call_def)
  moreover have "main empty_rounds ''puzzledistext'' [] [''dir''] [] = Inl Undefined"
  proof -
    have "layer empty_rounds default_settings (nat (limit default_settings)) = Inr []"
      by (simp add: layer_empty_rounds default_settings_def INT_MAX_def)
    moreover have "layer empty_rounds default_settings (1 - 1) = Inr [solved_record empty_rounds]"
      by (simp add: sampled_def default_settings_def)
    ultimately have "layer_loop empty_rounds default_settings (int 1) [solved_record empty_rounds]
        [(0, 1)] [] = Inl Undefined"
      by (subst layer_loop_run) (simp_all add: default_settings_def INT_MAX_def)
    then show ?thesis
      by (simp add: main_def default_settings_def library_call_def empty_rounds_def)
  qed
  ultimately show ?thesis by blast
qed

section \<open>Properties of \<^verbatim>\<open>pdb_conditional_update\<close>\<close>

lemma pointer_store [simp]:
  "pdb_entry_pointer (store pdb ptr v) idx = pdb_entry_pointer pdb idx"
  by (cases ptr) (simp add: pdb_entry_pointer_def store_def)

lemma load_store [simp]: "load (store pdb ptr v) ptr = v"
  by (cases ptr) (simp add: load_def store_def)

lemma load_store_other: "ptr' \<noteq> ptr \<Longrightarrow> load (store pdb ptr v) ptr' = load pdb ptr'"
  by (cases ptr; cases ptr') (auto simp: load_def store_def)

lemma ucast_UNREACHED [simp]: "(ucast (ucast UNREACHED :: 32 word) :: 8 word) = UNREACHED"
  by (simp add: UNREACHED_def)

lemma unat_ucast_byte: "unat (ucast x :: 8 word) = unat x mod 256" for x :: "32 word"
  by (simp add: unsigned_ucast_eq take_bit_eq_mod)

lemma uint_ucast_byte:
  fixes x :: "32 word"
  assumes "unat x < 256"
  shows "uint (ucast x :: 8 word) = uint x"
proof -
  have "uint (ucast x :: 8 word) = int (unat x mod 256)"
    using unat_ucast_byte [of x] by (simp flip: unat_ucast_byte)
  with assms show ?thesis by simp
qed

lemma conditional_updates_fail:
  assumes "load pdb (pdb_entry_pointer pdb idx) \<noteq> UNREACHED"
  shows "conditional_updates pdb idx ds = (replicate (length ds) 0, pdb)"
  using assms
proof (induction ds)
  case Nil
  show ?case by simp
next
  case (Cons d ds)
  then have "pdb_conditional_update pdb idx (ucast UNREACHED) d = (0, pdb)"
    by (simp add: pdb_conditional_update_def)
  with Cons show ?case by simp
qed

text \<open>
  C9. Let \<^verbatim>\<open>expected\<close> and \<^verbatim>\<open>desired\<close> be values of a byte, as the entries of a pattern
  database are. \<^verbatim>\<open>pdb_conditional_update\<close> compares the byte at \<open>idx\<close> with \<^verbatim>\<open>expected\<close>;
  exactly when they are equal it sets the byte to \<^verbatim>\<open>desired\<close>, leaving every other byte
  as it was, and returns 1; otherwise it returns 0 and leaves the pattern database
  unchanged. The exchange is one indivisible step, so the calls of concurrent callers
  take effect one after another. Starting from a byte equal to \<^verbatim>\<open>UNREACHED\<close>, of the
  calls \<^verbatim>\<open>pdb_conditional_update(pdb, idx, UNREACHED, d)\<close> with distances \<open>d\<close> in
  \<open>[0, 254]\<close>, in whatever order they take effect, the first returns 1 and sets the byte
  to its \<open>d\<close>, and every later one returns 0.
\<close>

theorem pdb_conditional_update_cas:
  assumes "unat expected < 256" and "unat desired < 256"
  shows "pdb_conditional_update pdb idx expected desired =
           (if pdb_lookup pdb idx = uint expected
            then (1, pdb_update pdb idx desired) else (0, pdb)) \<and>
         pdb_lookup (pdb_update pdb idx desired) idx = uint desired \<and>
         (pdb_entry_pointer pdb idx' \<noteq> pdb_entry_pointer pdb idx \<longrightarrow>
            pdb_lookup (pdb_update pdb idx desired) idx' = pdb_lookup pdb idx') \<and>
         (pdb_lookup pdb idx = uint UNREACHED \<and> (\<forall>d \<in> set (d # ds). unat d < 255) \<longrightarrow>
            conditional_updates pdb idx (d # ds) =
              (1 # replicate (length ds) 0, pdb_update pdb idx d))"
proof -
  have 1: "pdb_conditional_update pdb idx expected desired =
     (if pdb_lookup pdb idx = uint expected
      then (1, pdb_update pdb idx desired) else (0, pdb))"
    using assms(1)
    by (simp add: pdb_conditional_update_def pdb_lookup_def pdb_update_def
        word_uint_eq_iff [of _ "ucast expected"] uint_ucast_byte)
  have 2: "pdb_lookup (pdb_update pdb idx desired) idx = uint desired"
    using assms(2) by (simp add: pdb_lookup_def pdb_update_def uint_ucast_byte)
  have 3: "pdb_lookup (pdb_update pdb idx desired) idx' = pdb_lookup pdb idx'"
    if "pdb_entry_pointer pdb idx' \<noteq> pdb_entry_pointer pdb idx"
    using that by (simp add: pdb_lookup_def pdb_update_def load_store_other)
  have 4: "conditional_updates pdb idx (d # ds) =
        (1 # replicate (length ds) 0, pdb_update pdb idx d)"
    if "pdb_lookup pdb idx = uint UNREACHED" "\<forall>d \<in> set (d # ds). unat d < 255"
  proof -
    from that(1) have "load pdb (pdb_entry_pointer pdb idx) = UNREACHED"
      by (simp add: pdb_lookup_def word_uint_eq_iff)
    then have "pdb_conditional_update pdb idx (ucast UNREACHED) d = (1, pdb_update pdb idx d)"
      by (simp add: pdb_conditional_update_def pdb_update_def)
    moreover have b: "unat d < 255"
      using that(2) by simp
    have "uint d = int (unat d)"
      by (rule uint_nat)
    with b have "unat d < 256" "uint d \<noteq> 255"
      by linarith+
    then have "load (pdb_update pdb idx d) (pdb_entry_pointer (pdb_update pdb idx d) idx)
        \<noteq> UNREACHED"
      by (simp add: pdb_update_def word_uint_eq_iff uint_ucast_byte UNREACHED_def)
    ultimately show ?thesis
      by (simp add: conditional_updates_fail)
  qed
  from 1 2 3 4 show ?thesis by blast
qed

theorem pdb_conditional_update_cas_witness:
  "unat (255 :: 32 word) < 256 \<and> unat (7 :: 32 word) < 256 \<and>
   pdb_lookup cleared \<lparr>maprank = 0, pidx = 0, eqidx = 0\<rparr> = uint UNREACHED \<and>
   pdb_conditional_update cleared \<lparr>maprank = 0, pidx = 0, eqidx = 0\<rparr> 255 7 =
     (1, pdb_update cleared \<lparr>maprank = 0, pidx = 0, eqidx = 0\<rparr> 7) \<and>
   pdb_lookup (pdb_update cleared \<lparr>maprank = 0, pidx = 0, eqidx = 0\<rparr> 7)
     \<lparr>maprank = 0, pidx = 0, eqidx = 1\<rparr> = 255 \<and>
   conditional_updates cleared \<lparr>maprank = 0, pidx = 0, eqidx = 0\<rparr> [7, 7, 8] =
     ([1, 0, 0], pdb_update cleared \<lparr>maprank = 0, pidx = 0, eqidx = 0\<rparr> 7)"
proof -
  let ?idx = "\<lparr>maprank = 0, pidx = 0, eqidx = 0\<rparr>"
  let ?idx' = "\<lparr>maprank = 0, pidx = 0, eqidx = 1\<rparr>"
  have a: "unat (255 :: 32 word) < 256" "unat (7 :: 32 word) < 256"
    by simp_all
  have l: "pdb_lookup cleared ?idx = uint UNREACHED" "pdb_lookup cleared ?idx = uint (255 :: 32 word)"
    "pdb_lookup cleared ?idx' = 255"
    by (simp_all add: pdb_lookup_def cleared_def pdb_entry_pointer_def UNREACHED_def load_def)
  have d: "\<forall>d \<in> set [7, 7, 8 :: 32 word]. unat d < 255"
    by simp
  have p: "pdb_entry_pointer cleared ?idx' \<noteq> pdb_entry_pointer cleared ?idx"
    by (simp add: pdb_entry_pointer_def cleared_def)
  from pdb_conditional_update_cas [OF a, of cleared ?idx ?idx' 7 "[7, 8]"] a l d p
  show ?thesis
    by (simp del: conditional_updates.simps)
qed

end
